theory Spec2Isabelle
  imports Main "HOL-Library.Word"
begin

unbundle bit_operations_syntax

section \<open>The GCP KMS client of pkg/signature/kms/gcp/client.go\<close>

text \<open>
  The development embeds \<^verbatim>\<open>client.go\<close> function by function. The client object
  \<^verbatim>\<open>gcpClient\<close> is a record that is passed in and returned updated; the remote
  service behind \<^verbatim>\<open>kmsClient\<close> is a state of an arbitrary type \<open>'s\<close> on which
  every RPC is a function given by an environment record; every remote call and every
  local verification attempt is appended to the \<open>trace\<close> of the client, so that the
  order, the number and the context of the calls can be stated. Time is the instant
  \<open>t\<close> (nanoseconds, as \<^verbatim>\<open>time.Duration\<close>) at which an operation runs.
\<close>

subsection \<open>Values\<close>

type_synonym bytes = "8 word list"

text \<open>\<^verbatim>\<open>context.Context\<close>: the background context, or one supplied by a caller.\<close>

datatype "context" = Background | Caller nat

text \<open>\<^verbatim>\<open>crypto.Hash\<close>; only three values are named by the client.\<close>

datatype Hash = SHA256 | SHA384 | SHA512 | OtherHash nat

text \<open>
  \<^verbatim>\<open>kmspb.CryptoKeyVersion_CryptoKeyVersionAlgorithm\<close>: the ten values the client
  names, and every other value of the enumeration.
\<close>

datatype Algorithm =
    EC_SIGN_P256_SHA256
  | EC_SIGN_P384_SHA384
  | RSA_SIGN_PKCS1_2048_SHA256
  | RSA_SIGN_PKCS1_3072_SHA256
  | RSA_SIGN_PKCS1_4096_SHA256
  | RSA_SIGN_PKCS1_4096_SHA512
  | RSA_SIGN_PSS_2048_SHA256
  | RSA_SIGN_PSS_3072_SHA256
  | RSA_SIGN_PSS_4096_SHA256
  | RSA_SIGN_PSS_4096_SHA512
  | OtherAlgorithm nat

datatype Purpose = ASYMMETRIC_SIGN | OtherPurpose nat

text \<open>
  \<^verbatim>\<open>crypto.PublicKey\<close> is an interface; the client asserts it to
  \<^verbatim>\<open>*ecdsa.PublicKey\<close> or \<^verbatim>\<open>*rsa.PublicKey\<close>. The key material is a number.
\<close>

datatype PublicKey = ECDSA_PublicKey nat | RSA_PublicKey nat | Other_PublicKey nat

text \<open>Errors, built the way the source builds them.\<close>

datatype error =
    New string                 \<comment> \<open>\<^verbatim>\<open>errors.New(msg)\<close>, \<^verbatim>\<open>fmt.Errorf(msg)\<close>\<close>
  | Errorf string string       \<comment> \<open>\<^verbatim>\<open>errors.Errorf(format, arg)\<close>\<close>
  | Wrap error string          \<comment> \<open>\<^verbatim>\<open>errors.Wrap(err, msg)\<close>\<close>
  | Status nat                 \<comment> \<open>an error returned by the remote service\<close>

text \<open>Run-time panics of Go that the client can raise.\<close>

datatype panic = NilDereference | TypeAssertion

text \<open>What a call does: return a value, return an error, or panic.\<close>

datatype 'a outcome = Ok 'a | Err error | Panic panic

subsection \<open>Messages of the service\<close>

record CryptoKey =
  key_Purpose :: Purpose

record CryptoKeyVersion =
  kv_Name :: string
  kv_Algorithm :: Algorithm

datatype Digest = Digest_Sha256 bytes | Digest_Sha384 bytes | Digest_Sha512 bytes

text \<open>
  \<^verbatim>\<open>DigestCrc32C\<close> and \<^verbatim>\<open>SignatureCrc32C\<close> are pointers to an
  \<^verbatim>\<open>Int64Value\<close>: \<open>None\<close> is the nil pointer.
\<close>

record AsymmetricSignRequest =
  req_Name :: string
  req_Digest :: "Digest option"
  req_DigestCrc32C :: "64 word option"

record AsymmetricSignResponse =
  resp_Signature :: bytes
  resp_SignatureCrc32C :: "64 word option"
  resp_VerifiedDigestCrc32C :: bool

record ListCryptoKeyVersionsRequest =
  list_Parent :: string
  list_Filter :: string
  list_OrderBy :: string

record CreateCryptoKeyRequest =
  ckr_Parent :: string
  ckr_CryptoKeyId :: string
  ckr_Purpose :: Purpose
  ckr_Algorithm :: Algorithm

record CreateKeyRingRequest =
  krr_Parent :: string
  krr_KeyRingId :: string

subsection \<open>The local verifier\<close>

datatype scheme = ECDSA | RSA_PKCS1v15 | RSA_PSS

record SignerVerifier =
  sv_scheme :: scheme
  sv_PublicKey :: PublicKey
  sv_hash :: Hash

text \<open>
  \<^verbatim>\<open>ecdsa.PrivateKey{PublicKey: *ecPub}\<close> and \<^verbatim>\<open>rsa.PrivateKey{PublicKey: *rsaPub}\<close>:
  only the embedded public key is set. A pointer to one is an \<open>option\<close>.
\<close>

datatype ecdsa_PrivateKey = ecdsa_PrivateKey (ecdsa_Public: nat)
datatype rsa_PrivateKey = rsa_PrivateKey (rsa_Public: nat)

text \<open>
  Modelled from the spec: the local verifier factory of pkg/signature
  (\<^verbatim>\<open>LoadECDSASignerVerifier\<close>, \<^verbatim>\<open>LoadRSAPKCS1v15SignerVerifier\<close>,
  \<^verbatim>\<open>LoadRSAPSSSignerVerifier\<close>) is not among the sources. The spec gives it as
  taking a public key and a hash and returning a verifier that exposes that public key;
  a nil private key holds no public key, and the factory returns an error for it.
\<close>

definition LoadECDSASignerVerifier :: "ecdsa_PrivateKey option \<Rightarrow> Hash \<Rightarrow> error + SignerVerifier" where
  "LoadECDSASignerVerifier priv hf =
     (case priv of
        None \<Rightarrow> Inl (New ''invalid ECDSA private key specified'')
      | Some p \<Rightarrow> Inr \<lparr>sv_scheme = ECDSA, sv_PublicKey = ECDSA_PublicKey (ecdsa_Public p), sv_hash = hf\<rparr>)"

text \<open>
  Modelled from the spec: \<^verbatim>\<open>LoadRSAPKCS1v15SignerVerifier\<close> of pkg/signature, not
  among the sources; as above, for RSA keys with PKCS #1 v1.5 padding.
\<close>

definition LoadRSAPKCS1v15SignerVerifier :: "rsa_PrivateKey option \<Rightarrow> Hash \<Rightarrow> error + SignerVerifier" where
  "LoadRSAPKCS1v15SignerVerifier priv hf =
     (case priv of
        None \<Rightarrow> Inl (New ''invalid RSA private key specified'')
      | Some p \<Rightarrow> Inr \<lparr>sv_scheme = RSA_PKCS1v15, sv_PublicKey = RSA_PublicKey (rsa_Public p), sv_hash = hf\<rparr>)"

text \<open>
  Modelled from the spec: \<^verbatim>\<open>LoadRSAPSSSignerVerifier\<close> of pkg/signature, not among
  the sources; as above, for RSA keys with PSS padding.
\<close>

definition LoadRSAPSSSignerVerifier :: "rsa_PrivateKey option \<Rightarrow> Hash \<Rightarrow> error + SignerVerifier" where
  "LoadRSAPSSSignerVerifier priv hf =
     (case priv of
        None \<Rightarrow> Inl (New ''invalid RSA private key specified'')
      | Some p \<Rightarrow> Inr \<lparr>sv_scheme = RSA_PSS, sv_PublicKey = RSA_PublicKey (rsa_Public p), sv_hash = hf\<rparr>)"

text \<open>
  Modelled from the spec: \<^verbatim>\<open>SignerVerifier.PublicKey\<close> of pkg/signature, not among
  the sources: the verifier exposes the public key it was built over.
\<close>

definition PublicKey_of :: "SignerVerifier \<Rightarrow> error + PublicKey" where
  "PublicKey_of sv = Inr (sv_PublicKey sv)"

subsection \<open>CRC-32 of \<^verbatim>\<open>hash/crc32\<close>\<close>

definition Castagnoli :: "32 word" where
  "Castagnoli = 0x82f63b78"

text \<open>One of the eight steps that compute an entry of the table.\<close>

definition table_step :: "32 word \<Rightarrow> 32 word \<Rightarrow> 32 word" where
  "table_step poly crc =
     (if crc AND 1 = 1 then drop_bit 1 crc XOR poly else drop_bit 1 crc)"

text \<open>\<^verbatim>\<open>crc32.MakeTable(poly)[i]\<close>.\<close>

definition MakeTable :: "32 word \<Rightarrow> 8 word \<Rightarrow> 32 word" where
  "MakeTable poly i = (table_step poly ^^ 8) (ucast i)"

text \<open>
  \<^verbatim>\<open>crc = ^crc; for _, v := range p { crc = tab[byte(crc)^v] ^ (crc >> 8) }; return ^crc\<close>
\<close>

definition Update :: "32 word \<Rightarrow> (8 word \<Rightarrow> 32 word) \<Rightarrow> bytes \<Rightarrow> 32 word" where
  "Update crc tab p =
     NOT (foldl (\<lambda>c v. tab (ucast c XOR v) XOR drop_bit 8 c) (NOT crc) p)"

definition Checksum :: "bytes \<Rightarrow> (8 word \<Rightarrow> 32 word) \<Rightarrow> 32 word" where
  "Checksum data tab = Update 0 tab data"

subsection \<open>The resolved key version and the cache that holds it\<close>

record cryptoKeyVersion =
  ckv_CryptoKeyVersion :: CryptoKeyVersion
  ckv_SignerVerifier :: SignerVerifier
  ckv_HashFunc :: Hash

text \<open>
  Modelled from the spec: the cache library (\<^verbatim>\<open>ttlcache\<close>) is not among the
  sources. An entry holds a value, its time-to-live and its expiry; a read returns the
  entry of a key if it has not expired; a time-to-live of 0 stands for the time-to-live of
  the cache, which is "never expire" unless set otherwise; a read extends the expiry
  unless the cache was told to skip that; removing a key forgets its entry. Every
  definition of the cache below is part of that model.
\<close>

record 'v item =
  item_data :: 'v
  item_ttl :: int
  item_expireAt :: int

record 'v Cache =
  items :: "string \<rightharpoonup> 'v item"
  cache_ttl :: int
  skipTTLExtension :: bool

text \<open>\<^verbatim>\<open>time.Second\<close>, in nanoseconds.\<close>

definition Second :: int where
  "Second = 1000000000"

text \<open>Modelled from the spec: the time-to-live of an entry that never expires.\<close>

definition ItemNotExpire :: int where
  "ItemNotExpire = - 1"

text \<open>Modelled from the spec: the time-to-live that stands for that of the cache.\<close>

definition ItemExpireWithGlobalTTL :: int where
  "ItemExpireWithGlobalTTL = 0"

text \<open>Modelled from the spec: a new cache is empty, never expires, and extends on a hit.\<close>

definition NewCache :: "'v Cache" where
  "NewCache = \<lparr>items = Map.empty, cache_ttl = ItemNotExpire, skipTTLExtension = False\<rparr>"

text \<open>Modelled from the spec: whether a read leaves the expiry of an entry alone.\<close>

definition SkipTTLExtensionOnHit :: "bool \<Rightarrow> 'v Cache \<Rightarrow> 'v Cache" where
  "SkipTTLExtensionOnHit v c = c\<lparr>skipTTLExtension := v\<rparr>"

text \<open>
  Modelled from the spec: an entry has expired at instant \<open>t\<close> when it has a positive
  time-to-live and its expiry is before \<open>t\<close>.
\<close>

definition expired :: "int \<Rightarrow> 'v item \<Rightarrow> bool" where
  "expired t it = (if item_ttl it \<le> 0 then False else item_expireAt it < t)"

text \<open>Modelled from the spec: the expiry of an entry starts anew at instant \<open>t\<close>.\<close>

definition touch :: "int \<Rightarrow> 'v item \<Rightarrow> 'v item" where
  "touch t it = (if item_ttl it > 0 then it\<lparr>item_expireAt := t + item_ttl it\<rparr> else it)"

text \<open>
  Modelled from the spec: the entry of a key at instant \<open>t\<close>, if there is one that has
  not expired; its expiry is extended unless the cache skips that.
\<close>

definition getItem :: "int \<Rightarrow> string \<Rightarrow> 'v Cache \<Rightarrow> 'v item option \<times> 'v Cache" where
  "getItem t key c =
     (case items c key of
        None \<Rightarrow> (None, c)
      | Some it \<Rightarrow>
          if expired t it then (None, c)
          else if skipTTLExtension c then (Some it, c)
          else (Some it, c\<lparr>items := (items c)(key \<mapsto> touch t it)\<rparr>))"

text \<open>Modelled from the spec: storing a value under a key with a time-to-live.\<close>

definition SetWithTTL :: "int \<Rightarrow> string \<Rightarrow> 'v \<Rightarrow> int \<Rightarrow> 'v Cache \<Rightarrow> 'v Cache" where
  "SetWithTTL t key d ttl c =
     (let ttl' = (if ttl = ItemExpireWithGlobalTTL then cache_ttl c else ttl);
          it = touch t \<lparr>item_data = d, item_ttl = ttl', item_expireAt = 0\<rparr>
      in c\<lparr>items := (items c)(key \<mapsto> it)\<rparr>)"

text \<open>Modelled from the spec: removing the entry of a key.\<close>

definition Remove :: "string \<Rightarrow> 'v Cache \<Rightarrow> 'v Cache" where
  "Remove key c = c\<lparr>items := (items c)(key := None)\<rparr>"

definition CacheKey :: string where
  "CacheKey = ''crypto_key_version''"

subsection \<open>The client, the service and the trace\<close>

datatype event =
    Call_GetCryptoKey "context" string
  | Call_GetCryptoKeyVersion "context" string
  | Call_ListCryptoKeyVersions "context" ListCryptoKeyVersionsRequest
  | Call_GetPublicKey "context" string
  | Call_AsymmetricSign "context" AsymmetricSignRequest
  | Call_CreateCryptoKey "context" CreateCryptoKeyRequest
  | Call_GetKeyRing "context" string
  | Call_CreateKeyRing "context" CreateKeyRingRequest
  | Local_VerifySignature SignerVerifier

record 's gcpClient =
  defaultCtx :: "context"
  refString :: string
  projectID :: string
  locationID :: string
  keyRing :: string
  keyName :: string
  version :: string
  kvCache :: "cryptoKeyVersion Cache"
  kmsClient :: 's
  trace :: "event list"

text \<open>
  The collaborators of the client: the RPCs of the remote service, each a function on the
  state \<open>'s\<close> of the service that also receives the context of the call; the PEM decoder;
  and the signature check of a local verifier, which consumes the readers
  \<^verbatim>\<open>sig\<close> and \<^verbatim>\<open>message\<close>, whose state is \<open>'r\<close>.
  \<open>ListCryptoKeyVersions\<close> is the first \<^verbatim>\<open>Next()\<close> of the iterator.
\<close>

record ('s, 'r) env =
  NewKeyManagementClient :: "context \<Rightarrow> error + 's"
  GetCryptoKey :: "context \<Rightarrow> string \<Rightarrow> 's \<Rightarrow> (error + CryptoKey) \<times> 's"
  GetCryptoKeyVersion :: "context \<Rightarrow> string \<Rightarrow> 's \<Rightarrow> (error + CryptoKeyVersion) \<times> 's"
  ListCryptoKeyVersions ::
    "context \<Rightarrow> ListCryptoKeyVersionsRequest \<Rightarrow> 's \<Rightarrow> (error + CryptoKeyVersion) \<times> 's"
  GetPublicKey :: "context \<Rightarrow> string \<Rightarrow> 's \<Rightarrow> (error + string) \<times> 's"
  AsymmetricSign ::
    "context \<Rightarrow> AsymmetricSignRequest \<Rightarrow> 's \<Rightarrow> (error + AsymmetricSignResponse) \<times> 's"
  CreateCryptoKey :: "context \<Rightarrow> CreateCryptoKeyRequest \<Rightarrow> 's \<Rightarrow> (error + CryptoKey) \<times> 's"
  GetKeyRing :: "context \<Rightarrow> string \<Rightarrow> 's \<Rightarrow> (error + string) \<times> 's"
  CreateKeyRing :: "context \<Rightarrow> CreateKeyRingRequest \<Rightarrow> 's \<Rightarrow> (error + string) \<times> 's"
  UnmarshalPEMToPublicKey :: "string \<Rightarrow> error + PublicKey"
  VerifySignature :: "SignerVerifier \<Rightarrow> 'r \<Rightarrow> error option \<times> 'r"

text \<open>A remote call: the service answers and moves on, the trace records the call.\<close>

definition invoke :: "('s \<Rightarrow> 'a \<times> 's) \<Rightarrow> event \<Rightarrow> 's gcpClient \<Rightarrow> 'a \<times> 's gcpClient" where
  "invoke f ev g =
     (case f (kmsClient g) of
        (res, s') \<Rightarrow> (res, g\<lparr>kmsClient := s', trace := trace g @ [ev]\<rparr>))"

subsection \<open>\<^verbatim>\<open>keyVersionName\<close> and \<^verbatim>\<open>fetchPublicKey\<close>\<close>

definition fetchPublicKey ::
  "('s, 'r) env \<Rightarrow> context \<Rightarrow> string \<Rightarrow> 's gcpClient \<Rightarrow> (error + PublicKey) \<times> 's gcpClient" where
  "fetchPublicKey K ctx name g =
     (case invoke (GetPublicKey K ctx name) (Call_GetPublicKey ctx name) g of
        (Inl err, g') \<Rightarrow> (Inl (Wrap err ''public key''), g')
      | (Inr pem, g') \<Rightarrow> (UnmarshalPEMToPublicKey K pem, g'))"

definition parentName :: "'s gcpClient \<Rightarrow> string" where
  "parentName g =
     ''projects/'' @ projectID g @ ''/locations/'' @ locationID g
       @ ''/keyRings/'' @ keyRing g @ ''/cryptoKeys/'' @ keyName g"

text \<open>Lines 165 to 187: the pinned version, or the first enabled one in descending order.\<close>

definition selectVersion ::
  "('s, 'r) env \<Rightarrow> context \<Rightarrow> string \<Rightarrow> 's gcpClient
     \<Rightarrow> (error + CryptoKeyVersion) \<times> 's gcpClient" where
  "selectVersion K ctx parent g =
     (if version g \<noteq> '''' then
        (let name = parent @ ''/cryptoKeyVersions/'' @ version g in
         case invoke (GetCryptoKeyVersion K ctx name) (Call_GetCryptoKeyVersion ctx name) g of
           (Inl err, g') \<Rightarrow> (Inl err, g')
         | (Inr kv, g') \<Rightarrow> (Inr kv, g'))
      else
        (let req = \<lparr>list_Parent = parent, list_Filter = ''state=ENABLED'',
                    list_OrderBy = ''name desc''\<rparr> in
         case invoke (ListCryptoKeyVersions K ctx req) (Call_ListCryptoKeyVersions ctx req) g of
           (Inl err, g') \<Rightarrow> (Inl (Wrap err ''unable to find an enabled key version in GCP KMS''), g')
         | (Inr kv, g') \<Rightarrow> (Inr kv, g')))"

text \<open>
  The first switch on \<^verbatim>\<open>kv.Algorithm\<close> (lines 198 to 214). The case of
  \<open>EC_SIGN_P256_SHA256\<close> has an empty body and Go does not fall through: both private keys
  stay nil. A type assertion on a key of another type panics.
\<close>

definition ecdsaCase :: "PublicKey \<Rightarrow> (ecdsa_PrivateKey option \<times> rsa_PrivateKey option) outcome" where
  "ecdsaCase pubKey =
     (case pubKey of
        ECDSA_PublicKey k \<Rightarrow> Ok (Some (ecdsa_PrivateKey k), None)
      | RSA_PublicKey k \<Rightarrow> Panic TypeAssertion
      | Other_PublicKey k \<Rightarrow> Panic TypeAssertion)"

definition rsaCase :: "PublicKey \<Rightarrow> (ecdsa_PrivateKey option \<times> rsa_PrivateKey option) outcome" where
  "rsaCase pubKey =
     (case pubKey of
        ECDSA_PublicKey k \<Rightarrow> Panic TypeAssertion
      | RSA_PublicKey k \<Rightarrow> Ok (None, Some (rsa_PrivateKey k))
      | Other_PublicKey k \<Rightarrow> Panic TypeAssertion)"

definition privateKeys ::
  "Algorithm \<Rightarrow> PublicKey \<Rightarrow> (ecdsa_PrivateKey option \<times> rsa_PrivateKey option) outcome" where
  "privateKeys alg pubKey =
     (case alg of
        EC_SIGN_P256_SHA256 \<Rightarrow> Ok (None, None)
      | EC_SIGN_P384_SHA384 \<Rightarrow> ecdsaCase pubKey
      | RSA_SIGN_PKCS1_2048_SHA256 \<Rightarrow> rsaCase pubKey
      | RSA_SIGN_PKCS1_3072_SHA256 \<Rightarrow> rsaCase pubKey
      | RSA_SIGN_PKCS1_4096_SHA256 \<Rightarrow> rsaCase pubKey
      | RSA_SIGN_PKCS1_4096_SHA512 \<Rightarrow> rsaCase pubKey
      | RSA_SIGN_PSS_2048_SHA256 \<Rightarrow> rsaCase pubKey
      | RSA_SIGN_PSS_3072_SHA256 \<Rightarrow> rsaCase pubKey
      | RSA_SIGN_PSS_4096_SHA256 \<Rightarrow> rsaCase pubKey
      | RSA_SIGN_PSS_4096_SHA512 \<Rightarrow> rsaCase pubKey
      | OtherAlgorithm n \<Rightarrow> Err (New ''unknown algorithm specified by KMS''))"

text \<open>
  The second switch (lines 220 to 245): the verifier (or the error of its loader) and the
  hash function of the algorithm; the default case returns at once.
\<close>

definition loadSignerVerifier ::
  "Algorithm \<Rightarrow> ecdsa_PrivateKey option \<Rightarrow> rsa_PrivateKey option
     \<Rightarrow> error + ((error + SignerVerifier) \<times> Hash)" where
  "loadSignerVerifier alg ecPriv rsaPriv =
     (case alg of
        EC_SIGN_P256_SHA256 \<Rightarrow> Inr (LoadECDSASignerVerifier ecPriv SHA256, SHA256)
      | EC_SIGN_P384_SHA384 \<Rightarrow> Inr (LoadECDSASignerVerifier ecPriv SHA384, SHA384)
      | RSA_SIGN_PKCS1_2048_SHA256 \<Rightarrow> Inr (LoadRSAPKCS1v15SignerVerifier rsaPriv SHA256, SHA256)
      | RSA_SIGN_PKCS1_3072_SHA256 \<Rightarrow> Inr (LoadRSAPKCS1v15SignerVerifier rsaPriv SHA256, SHA256)
      | RSA_SIGN_PKCS1_4096_SHA256 \<Rightarrow> Inr (LoadRSAPKCS1v15SignerVerifier rsaPriv SHA256, SHA256)
      | RSA_SIGN_PKCS1_4096_SHA512 \<Rightarrow> Inr (LoadRSAPKCS1v15SignerVerifier rsaPriv SHA512, SHA512)
      | RSA_SIGN_PSS_2048_SHA256 \<Rightarrow> Inr (LoadRSAPSSSignerVerifier rsaPriv SHA256, SHA256)
      | RSA_SIGN_PSS_3072_SHA256 \<Rightarrow> Inr (LoadRSAPSSSignerVerifier rsaPriv SHA256, SHA256)
      | RSA_SIGN_PSS_4096_SHA256 \<Rightarrow> Inr (LoadRSAPSSSignerVerifier rsaPriv SHA256, SHA256)
      | RSA_SIGN_PSS_4096_SHA512 \<Rightarrow> Inr (LoadRSAPSSSignerVerifier rsaPriv SHA512, SHA512)
      | OtherAlgorithm n \<Rightarrow> Inl (New ''unknown algorithm specified by KMS''))"

text \<open>Lines 188 to 249: from the selected version and its public key to the result.\<close>

definition buildVersion :: "CryptoKeyVersion \<Rightarrow> PublicKey \<Rightarrow> cryptoKeyVersion outcome" where
  "buildVersion kv pubKey =
     (case privateKeys (kv_Algorithm kv) pubKey of
        Err e \<Rightarrow> Err e
      | Panic p \<Rightarrow> Panic p
      | Ok (ecPriv, rsaPriv) \<Rightarrow>
          (case loadSignerVerifier (kv_Algorithm kv) ecPriv rsaPriv of
             Inl e \<Rightarrow> Err e
           | Inr (Inl err, h) \<Rightarrow> Err (Wrap err ''initializing internal verifier'')
           | Inr (Inr sv, h) \<Rightarrow>
               Ok \<lparr>ckv_CryptoKeyVersion = kv, ckv_SignerVerifier = sv, ckv_HashFunc = h\<rparr>))"

definition keyVersionName ::
  "('s, 'r) env \<Rightarrow> context \<Rightarrow> 's gcpClient \<Rightarrow> cryptoKeyVersion outcome \<times> 's gcpClient" where
  "keyVersionName K ctx g =
     (let parent = parentName g in
      case invoke (GetCryptoKey K ctx parent) (Call_GetCryptoKey ctx parent) g of
        (Inl err, g1) \<Rightarrow> (Err err, g1)
      | (Inr key, g1) \<Rightarrow>
          if key_Purpose key \<noteq> ASYMMETRIC_SIGN
          then (Err (New ''specified key cannot be used to sign''), g1)
          else
            (case selectVersion K ctx parent g1 of
               (Inl err, g2) \<Rightarrow> (Err err, g2)
             | (Inr kv, g2) \<Rightarrow>
                 (case fetchPublicKey K ctx (kv_Name kv) g2 of
                    (Inl err, g3) \<Rightarrow>
                      (Err (Wrap err ''unable to fetch public key while creating signer''), g3)
                  | (Inr pubKey, g3) \<Rightarrow> (buildVersion kv pubKey, g3))))"

subsection \<open>The cache loader and \<^verbatim>\<open>getCKV\<close>\<close>

definition kvCacheLoaderFunction ::
  "('s, 'r) env \<Rightarrow> string \<Rightarrow> 's gcpClient \<Rightarrow> cryptoKeyVersion outcome \<times> int \<times> 's gcpClient" where
  "kvCacheLoaderFunction K key g =
     (let ttl = (if version g \<noteq> '''' then Second * 0 else Second * 300) in
      case keyVersionName K Background g of (data, g') \<Rightarrow> (data, ttl, g'))"

text \<open>
  Modelled from the spec: \<^verbatim>\<open>g.kvCache.Get(key)\<close> of the cache library, with the
  loader that \<^verbatim>\<open>newGCPClient\<close> registers: a hit returns the entry; a miss calls the
  loader and stores what it returns with the time-to-live it returns, unless it failed.
\<close>

definition kvCache_Get ::
  "('s, 'r) env \<Rightarrow> int \<Rightarrow> string \<Rightarrow> 's gcpClient \<Rightarrow> cryptoKeyVersion outcome \<times> 's gcpClient" where
  "kvCache_Get K t key g =
     (case getItem t key (kvCache g) of
        (Some it, c') \<Rightarrow> (Ok (item_data it), g\<lparr>kvCache := c'\<rparr>)
      | (None, c') \<Rightarrow>
          (case kvCacheLoaderFunction K key (g\<lparr>kvCache := c'\<rparr>) of
             (Ok d, ttl, g') \<Rightarrow> (Ok d, g'\<lparr>kvCache := SetWithTTL t key d ttl (kvCache g')\<rparr>)
           | (Err e, ttl, g') \<Rightarrow> (Err e, g')
           | (Panic p, ttl, g') \<Rightarrow> (Panic p, g')))"

definition getCKV ::
  "('s, 'r) env \<Rightarrow> int \<Rightarrow> 's gcpClient \<Rightarrow> cryptoKeyVersion outcome \<times> 's gcpClient" where
  "getCKV K t g =
     (case kvCache_Get K t CacheKey g of
        (Err err, g') \<Rightarrow> (Err err, g')
      | (Panic p, g') \<Rightarrow> (Panic p, g')
      | (Ok kmsVersionInt, g') \<Rightarrow> (Ok kmsVersionInt, g'))"

definition getHashFunc ::
  "('s, 'r) env \<Rightarrow> int \<Rightarrow> 's gcpClient \<Rightarrow> Hash outcome \<times> 's gcpClient" where
  "getHashFunc K t g =
     (case getCKV K t g of
        (Err err, g') \<Rightarrow> (Err err, g')
      | (Panic p, g') \<Rightarrow> (Panic p, g')
      | (Ok ckv, g') \<Rightarrow> (Ok (ckv_HashFunc ckv), g'))"

subsection \<open>\<^verbatim>\<open>sign\<close>, \<^verbatim>\<open>public\<close> and \<^verbatim>\<open>verify\<close>\<close>

text \<open>The switch on \<^verbatim>\<open>alg\<close> of \<^verbatim>\<open>sign\<close>: the digest of the request, if any.\<close>

definition digestFor :: "Hash \<Rightarrow> bytes \<Rightarrow> Digest option" where
  "digestFor alg digest =
     (case alg of
        SHA256 \<Rightarrow> Some (Digest_Sha256 digest)
      | SHA384 \<Rightarrow> Some (Digest_Sha384 digest)
      | SHA512 \<Rightarrow> Some (Digest_Sha512 digest)
      | OtherHash n \<Rightarrow> None)"

text \<open>Lines 320 to 330: the two integrity checks on the response, in this order.\<close>

definition checkResponse :: "32 word \<Rightarrow> AsymmetricSignResponse \<Rightarrow> bytes outcome" where
  "checkResponse crc resp =
     (if crc \<noteq> 0 \<and> \<not> resp_VerifiedDigestCrc32C resp
      then Err (New ''AsymmetricSign: request corrupted in-transit'')
      else
        (case resp_SignatureCrc32C resp of
           None \<Rightarrow> Panic NilDereference
         | Some v \<Rightarrow>
             if ucast (Checksum (resp_Signature resp) (MakeTable Castagnoli)) \<noteq> v
             then Err (New ''AsymmetricSign: response corrupted in-transit'')
             else Ok (resp_Signature resp)))"

text \<open>Lines 289 to 313: the request, or the error for a hash function outside the three.\<close>

definition signRequest ::
  "cryptoKeyVersion \<Rightarrow> bytes \<Rightarrow> Hash \<Rightarrow> 32 word \<Rightarrow> error + AsymmetricSignRequest" where
  "signRequest ckv digest alg crc =
     (let gcpSignReq0 = \<lparr>req_Name = kv_Name (ckv_CryptoKeyVersion ckv),
                         req_Digest = None, req_DigestCrc32C = None\<rparr>;
          gcpSignReq1 = (if crc \<noteq> 0 then gcpSignReq0\<lparr>req_DigestCrc32C := Some (ucast crc)\<rparr>
                         else gcpSignReq0)
      in case digestFor alg digest of
           None \<Rightarrow> Inl (New ''unsupported hash function'')
         | Some d \<Rightarrow> Inr (gcpSignReq1\<lparr>req_Digest := Some d\<rparr>))"

definition sign ::
  "('s, 'r) env \<Rightarrow> int \<Rightarrow> context \<Rightarrow> bytes \<Rightarrow> Hash \<Rightarrow> 32 word \<Rightarrow> 's gcpClient
     \<Rightarrow> bytes outcome \<times> 's gcpClient" where
  "sign K t ctx digest alg crc g =
     (case getCKV K t g of
        (Err err, g1) \<Rightarrow> (Err err, g1)
      | (Panic p, g1) \<Rightarrow> (Panic p, g1)
      | (Ok ckv, g1) \<Rightarrow>
          (case signRequest ckv digest alg crc of
             Inl err \<Rightarrow> (Err err, g1)
           | Inr gcpSignReq \<Rightarrow>
               (case invoke (AsymmetricSign K ctx gcpSignReq)
                            (Call_AsymmetricSign ctx gcpSignReq) g1 of
                  (Inl err, g2) \<Rightarrow> (Err (Wrap err ''calling GCP AsymmetricSign''), g2)
                | (Inr resp, g2) \<Rightarrow> (checkResponse crc resp, g2))))"

definition "public" ::
  "('s, 'r) env \<Rightarrow> int \<Rightarrow> context \<Rightarrow> 's gcpClient \<Rightarrow> PublicKey outcome \<times> 's gcpClient" where
  "public K t ctx g =
     (case getCKV K t g of
        (Err err, g1) \<Rightarrow> (Err (Wrap err ''transient error getting info from KMS''), g1)
      | (Panic p, g1) \<Rightarrow> (Panic p, g1)
      | (Ok crv, g1) \<Rightarrow>
          (case PublicKey_of (ckv_SignerVerifier crv) of
             Inl err \<Rightarrow> (Err err, g1)
           | Inr pk \<Rightarrow> (Ok pk, g1)))"

text \<open>
  \<^verbatim>\<open>crv.SignerVerifier.VerifySignature(sig, message, opts...)\<close>: a local attempt,
  recorded in the trace; it reads from the readers and leaves them as it leaves them.
\<close>

definition verifySignature ::
  "('s, 'r) env \<Rightarrow> SignerVerifier \<Rightarrow> 'r \<Rightarrow> 's gcpClient \<Rightarrow> error option \<times> 'r \<times> 's gcpClient" where
  "verifySignature K sv r g =
     (case VerifySignature K sv r of
        (res, r') \<Rightarrow> (res, r', g\<lparr>trace := trace g @ [Local_VerifySignature sv]\<rparr>))"

definition verify ::
  "('s, 'r) env \<Rightarrow> int \<Rightarrow> 'r \<Rightarrow> 's gcpClient \<Rightarrow> unit outcome \<times> 'r \<times> 's gcpClient" where
  "verify K t r g =
     (case getCKV K t g of
        (Err err, g1) \<Rightarrow> (Err (Wrap err ''transient error getting info from KMS''), r, g1)
      | (Panic p, g1) \<Rightarrow> (Panic p, r, g1)
      | (Ok crv, g1) \<Rightarrow>
          (case verifySignature K (ckv_SignerVerifier crv) r g1 of
             (None, r1, g2) \<Rightarrow> (Ok (), r1, g2)
           | (Some err, r1, g2) \<Rightarrow>
               if version g2 = '''' then
                 (let g3 = g2\<lparr>kvCache := Remove CacheKey (kvCache g2)\<rparr> in
                  case getCKV K t g3 of
                    (Err err', g4) \<Rightarrow>
                      (Err (Wrap err' ''transient error getting info from KMS''), r1, g4)
                  | (Panic p, g4) \<Rightarrow> (Panic p, r1, g4)
                  | (Ok crv', g4) \<Rightarrow>
                      (case verifySignature K (ckv_SignerVerifier crv') r1 g4 of
                         (None, r2, g5) \<Rightarrow> (Ok (), r2, g5)
                       | (Some err', r2, g5) \<Rightarrow> (Err err', r2, g5)))
               else (Err (Wrap err ''failed to verify for fixed version''), r1, g2)))"

subsection \<open>\<^verbatim>\<open>createKey\<close> and \<^verbatim>\<open>createKeyRing\<close>\<close>

definition Algorithm_ECDSA_P256_SHA256 :: string where
  "Algorithm_ECDSA_P256_SHA256 = ''ecdsa-p256-sha256''"

definition Algorithm_ECDSA_P384_SHA384 :: string where
  "Algorithm_ECDSA_P384_SHA384 = ''ecdsa-p384-sha384''"

definition Algorithm_RSA_PKCS1v15_2048_SHA256 :: string where
  "Algorithm_RSA_PKCS1v15_2048_SHA256 = ''rsa-pkcs1v15-2048-sha256''"

definition Algorithm_RSA_PKCS1v15_3072_SHA256 :: string where
  "Algorithm_RSA_PKCS1v15_3072_SHA256 = ''rsa-pkcs1v15-3072-sha256''"

definition Algorithm_RSA_PKCS1v15_4096_SHA256 :: string where
  "Algorithm_RSA_PKCS1v15_4096_SHA256 = ''rsa-pkcs1v15-4096-sha256''"

definition Algorithm_RSA_PKCS1v15_4096_SHA512 :: string where
  "Algorithm_RSA_PKCS1v15_4096_SHA512 = ''rsa-pkcs1v15-4096-sha512''"

definition Algorithm_RSA_PSS_2048_SHA256 :: string where
  "Algorithm_RSA_PSS_2048_SHA256 = ''rsa-pss-2048-sha256''"

definition Algorithm_RSA_PSS_3072_SHA256 :: string where
  "Algorithm_RSA_PSS_3072_SHA256 = ''rsa-pss-3072-sha256''"

definition Algorithm_RSA_PSS_4096_SHA256 :: string where
  "Algorithm_RSA_PSS_4096_SHA256 = ''rsa-pss-4096-sha256''"

definition Algorithm_RSA_PSS_4096_SHA512 :: string where
  "Algorithm_RSA_PSS_4096_SHA512 = ''rsa-pss-4096-sha512''"

definition algorithmMap :: "string \<rightharpoonup> Algorithm" where
  "algorithmMap = map_of
     [(Algorithm_ECDSA_P256_SHA256, EC_SIGN_P256_SHA256),
      (Algorithm_ECDSA_P384_SHA384, EC_SIGN_P384_SHA384),
      (Algorithm_RSA_PKCS1v15_2048_SHA256, RSA_SIGN_PKCS1_2048_SHA256),
      (Algorithm_RSA_PKCS1v15_3072_SHA256, RSA_SIGN_PKCS1_3072_SHA256),
      (Algorithm_RSA_PKCS1v15_4096_SHA256, RSA_SIGN_PKCS1_4096_SHA256),
      (Algorithm_RSA_PKCS1v15_4096_SHA512, RSA_SIGN_PKCS1_4096_SHA512),
      (Algorithm_RSA_PSS_2048_SHA256, RSA_SIGN_PSS_2048_SHA256),
      (Algorithm_RSA_PSS_3072_SHA256, RSA_SIGN_PSS_3072_SHA256),
      (Algorithm_RSA_PSS_4096_SHA256, RSA_SIGN_PSS_4096_SHA256),
      (Algorithm_RSA_PSS_4096_SHA512, RSA_SIGN_PSS_4096_SHA512)]"

definition keyRingName :: "'s gcpClient \<Rightarrow> string" where
  "keyRingName g =
     ''projects/'' @ projectID g @ ''/locations/'' @ locationID g @ ''/keyRings/'' @ keyRing g"

definition createKeyRing ::
  "('s, 'r) env \<Rightarrow> context \<Rightarrow> 's gcpClient \<Rightarrow> error option \<times> 's gcpClient" where
  "createKeyRing K ctx g =
     (let name = keyRingName g in
      case invoke (GetKeyRing K ctx name) (Call_GetKeyRing ctx name) g of
        (Inr result, g1) \<Rightarrow> (None, g1)
      | (Inl err, g1) \<Rightarrow>
          (let createKeyRingRequest =
                 \<lparr>krr_Parent = ''projects/'' @ projectID g @ ''/locations/'' @ locationID g,
                  krr_KeyRingId = keyRing g\<rparr> in
           case invoke (CreateKeyRing K ctx createKeyRingRequest)
                       (Call_CreateKeyRing ctx createKeyRingRequest) g1 of
             (Inl err', g2) \<Rightarrow> (Some err', g2)
           | (Inr result, g2) \<Rightarrow> (None, g2)))"

definition createKey ::
  "('s, 'r) env \<Rightarrow> int \<Rightarrow> context \<Rightarrow> string \<Rightarrow> 's gcpClient
     \<Rightarrow> PublicKey outcome \<times> 's gcpClient" where
  "createKey K t ctx algorithm g =
     (case createKeyRing K ctx g of
        (Some err, g1) \<Rightarrow> (Err (Wrap err ''creating key ring''), g1)
      | (None, g1) \<Rightarrow>
          (let name = parentName g in
           case invoke (GetCryptoKey K ctx name) (Call_GetCryptoKey ctx name) g1 of
             (Inr key, g2) \<Rightarrow> public K t ctx g2
           | (Inl err, g2) \<Rightarrow>
               (case algorithmMap algorithm of
                  None \<Rightarrow> (Err (New ''unknown algorithm requested''), g2)
                | Some alg \<Rightarrow>
                    (let createKeyRequest =
                           \<lparr>ckr_Parent = keyRingName g, ckr_CryptoKeyId = keyName g,
                            ckr_Purpose = ASYMMETRIC_SIGN, ckr_Algorithm = alg\<rparr> in
                     case invoke (CreateCryptoKey K ctx createKeyRequest)
                                 (Call_CreateCryptoKey ctx createKeyRequest) g2 of
                       (Inl err', g3) \<Rightarrow> (Err (Wrap err' ''creating crypto key''), g3)
                     | (Inr key, g3) \<Rightarrow> public K t ctx g3))))"

subsection \<open>Key references: the regular expression, \<^verbatim>\<open>ValidReference\<close>, \<^verbatim>\<open>parseReference\<close>\<close>

text \<open>
  The regular expressions that the pattern of line 105 is made of: literal text,
  \<^verbatim>\<open>[^x]+\<close>, a numbered capturing group, concatenation, and \<^verbatim>\<open>(?:r)?\<close>.
\<close>

datatype regex =
    Lit string
  | PlusNot char
  | Group nat regex
  | Seq regex regex
  | Opt regex

text \<open>
  All the ways in which a regular expression matches at the start of a string, in the
  order of preference of a backtracking matcher (greedy repetition and option first):
  each is the rest of the string with the captures made so far.
\<close>

type_synonym captures = "string option list"

fun run :: "regex \<Rightarrow> string \<Rightarrow> captures \<Rightarrow> (string \<times> captures) list" where
  "run (Lit l) s c = (if take (length l) s = l then [(drop (length l) s, c)] else [])"
| "run (PlusNot x) s c =
     map (\<lambda>n. (drop n s, c)) (rev [1 ..< Suc (length (takeWhile (\<lambda>y. y \<noteq> x) s))])"
| "run (Group i r) s c =
     map (\<lambda>(s', c'). (s', c'[i := Some (take (length s - length s') s)])) (run r s c)"
| "run (Seq a b) s c = concat (map (\<lambda>(s', c'). run b s' c') (run a s c))"
| "run (Opt r) s c = run r s c @ [(s, c)]"

text \<open>
  A pattern between \<^verbatim>\<open>^\<close> and \<^verbatim>\<open>$\<close> with \<open>n\<close> groups: the first way that
  consumes the whole string. \<^verbatim>\<open>FindStringSubmatch\<close> returns nil (the empty list) when
  there is none, and otherwise the whole match followed by the text of each group, empty
  for a group that took no part.
\<close>

definition firstMatch :: "regex \<Rightarrow> nat \<Rightarrow> string \<Rightarrow> captures option" where
  "firstMatch r n s =
     (case find (\<lambda>m. fst m = []) (run r s (replicate (Suc n) None)) of
        None \<Rightarrow> None
      | Some m \<Rightarrow> Some ((snd m)[0 := Some s]))"

definition MatchString :: "regex \<Rightarrow> nat \<Rightarrow> string \<Rightarrow> bool" where
  "MatchString r n s = (firstMatch r n s \<noteq> None)"

definition FindStringSubmatch :: "regex \<Rightarrow> nat \<Rightarrow> string \<Rightarrow> string list" where
  "FindStringSubmatch r n s =
     (case firstMatch r n s of
        None \<Rightarrow> []
      | Some c \<Rightarrow> map (\<lambda>g. case g of None \<Rightarrow> [] | Some x \<Rightarrow> x) c)"

definition ErrKMSReference :: error where
  "ErrKMSReference = New ''kms specification should be in the format gcpkms://projects/[PROJECT_ID]/locations/[LOCATION]/keyRings/[KEY_RING]/cryptoKeys/[KEY]/versions/[VERSION]''"

text \<open>
  \<^verbatim>\<open>^gcpkms://projects/([^/]+)/locations/([^/]+)/keyRings/([^/]+)/cryptoKeys/([^/]+)(?:/versions/([^/]+))?$\<close>
\<close>

definition re :: regex where
  "re =
     Seq (Lit ''gcpkms://projects/'') (Seq (Group 1 (PlusNot (CHR ''/'')))
    (Seq (Lit ''/locations/'') (Seq (Group 2 (PlusNot (CHR ''/'')))
    (Seq (Lit ''/keyRings/'') (Seq (Group 3 (PlusNot (CHR ''/'')))
    (Seq (Lit ''/cryptoKeys/'') (Seq (Group 4 (PlusNot (CHR ''/'')))
    (Opt (Seq (Lit ''/versions/'') (Group 5 (PlusNot (CHR ''/''))))))))))))"

definition ReferenceScheme :: string where
  "ReferenceScheme = ''gcpkms://''"

definition ValidReference :: "string \<Rightarrow> error option" where
  "ValidReference ref = (if \<not> MatchString re 5 ref then Some ErrKMSReference else None)"

text \<open>
  The five named results and \<^verbatim>\<open>err\<close>; on the error return the five strings have
  their zero value.
\<close>

definition parseReference ::
  "string \<Rightarrow> (string \<times> string \<times> string \<times> string \<times> string) \<times> error option" where
  "parseReference resourceID =
     (let v = FindStringSubmatch re 5 resourceID in
      if length v \<noteq> 6
      then (('''', '''', '''', '''', ''''), Some (Errorf ''invalid gcpkms format %q'' resourceID))
      else ((v ! 1, v ! 2, v ! 3, v ! 4, v ! 5), None))"

text \<open>
  The grammar of key references in the words of the specification: the scheme, four
  segments and an optional fifth, each a non-empty token without a slash.
\<close>

definition token :: "string \<Rightarrow> bool" where
  "token x \<longleftrightarrow> x \<noteq> [] \<and> CHR ''/'' \<notin> set x"

definition unpinned_ref :: "string \<Rightarrow> string \<Rightarrow> string \<Rightarrow> string \<Rightarrow> string" where
  "unpinned_ref P L R K =
     ''gcpkms://projects/'' @ P @ ''/locations/'' @ L @ ''/keyRings/'' @ R
       @ ''/cryptoKeys/'' @ K"

definition pinned_ref :: "string \<Rightarrow> string \<Rightarrow> string \<Rightarrow> string \<Rightarrow> string \<Rightarrow> string" where
  "pinned_ref P L R K V = unpinned_ref P L R K @ ''/versions/'' @ V"

definition reference_grammar :: "string \<Rightarrow> bool" where
  "reference_grammar s \<longleftrightarrow>
     (\<exists>P L R K. token P \<and> token L \<and> token R \<and> token K \<and>
        (s = unpinned_ref P L R K \<or> (\<exists>V. token V \<and> s = pinned_ref P L R K V)))"

subsection \<open>\<^verbatim>\<open>newGCPClient\<close>\<close>

text \<open>A nil context is replaced by the background context.\<close>

definition newGCPClient ::
  "('s, 'r) env \<Rightarrow> int \<Rightarrow> context option \<Rightarrow> string \<Rightarrow> 's gcpClient outcome" where
  "newGCPClient K t ctx refStr =
     (case ValidReference refStr of
        Some err \<Rightarrow> Err err
      | None \<Rightarrow>
          (let ctx' = (case ctx of None \<Rightarrow> Background | Some c \<Rightarrow> c) in
           case parseReference refStr of
             (ids, Some err) \<Rightarrow> Err err
           | ((p, l, r, k, v), None) \<Rightarrow>
               (case NewKeyManagementClient K ctx' of
                  Inl err \<Rightarrow> Err (Wrap err ''new gcp kms client'')
                | Inr client \<Rightarrow>
                    (let g = \<lparr>defaultCtx = ctx', refString = refStr, projectID = p,
                              locationID = l, keyRing = r, keyName = k, version = v,
                              kvCache = SkipTTLExtensionOnHit True NewCache,
                              kmsClient = client, trace = []\<rparr> in
                     case kvCache_Get K t CacheKey g of
                       (Err err, g') \<Rightarrow>
                         Err (Wrap err ''initializing key version from GCP KMS'')
                     | (Panic p, g') \<Rightarrow> Panic p
                     | (Ok d, g') \<Rightarrow> Ok g'))))"

text \<open>Reads of the cached version at the instants of a list, one after the other.\<close>

fun reads ::
  "('s, 'r) env \<Rightarrow> int list \<Rightarrow> 's gcpClient \<Rightarrow> cryptoKeyVersion outcome list \<times> 's gcpClient" where
  "reads K [] g = ([], g)"
| "reads K (t # ts) g =
     (case getCKV K t g of
        (d, g') \<Rightarrow> (case reads K ts g' of (ds, g'') \<Rightarrow> (d # ds, g'')))"

text \<open>The context of a remote call; a local verification has none.\<close>

fun event_ctx :: "event \<Rightarrow> context option" where
  "event_ctx (Call_GetCryptoKey c n) = Some c"
| "event_ctx (Call_GetCryptoKeyVersion c n) = Some c"
| "event_ctx (Call_ListCryptoKeyVersions c r) = Some c"
| "event_ctx (Call_GetPublicKey c n) = Some c"
| "event_ctx (Call_AsymmetricSign c r) = Some c"
| "event_ctx (Call_CreateCryptoKey c r) = Some c"
| "event_ctx (Call_GetKeyRing c n) = Some c"
| "event_ctx (Call_CreateKeyRing c r) = Some c"
| "event_ctx (Local_VerifySignature sv) = None"

text \<open>
  What an operation may change in the client: the cache, the state of the service, and
  the trace, which grows by events that satisfy \<open>P\<close>.
\<close>

definition changes :: "(event \<Rightarrow> bool) \<Rightarrow> 's gcpClient \<Rightarrow> 's gcpClient \<Rightarrow> bool" where
  "changes P g g' \<longleftrightarrow>
     (\<exists>c s new. g' = g\<lparr>kvCache := c, kmsClient := s, trace := trace g @ new\<rparr>
        \<and> (\<forall>e \<in> set new. P e))"

text \<open>
  The supported algorithms in the words of the specification: the caller-facing name, the
  native algorithm and the hash function of each.
\<close>

definition documented :: "(string \<times> Algorithm \<times> Hash) list" where
  "documented =
     [(''ecdsa-p256-sha256'', EC_SIGN_P256_SHA256, SHA256),
      (''ecdsa-p384-sha384'', EC_SIGN_P384_SHA384, SHA384),
      (''rsa-pkcs1v15-2048-sha256'', RSA_SIGN_PKCS1_2048_SHA256, SHA256),
      (''rsa-pkcs1v15-3072-sha256'', RSA_SIGN_PKCS1_3072_SHA256, SHA256),
      (''rsa-pkcs1v15-4096-sha256'', RSA_SIGN_PKCS1_4096_SHA256, SHA256),
      (''rsa-pkcs1v15-4096-sha512'', RSA_SIGN_PKCS1_4096_SHA512, SHA512),
      (''rsa-pss-2048-sha256'', RSA_SIGN_PSS_2048_SHA256, SHA256),
      (''rsa-pss-3072-sha256'', RSA_SIGN_PSS_3072_SHA256, SHA256),
      (''rsa-pss-4096-sha256'', RSA_SIGN_PSS_4096_SHA256, SHA256),
      (''rsa-pss-4096-sha512'', RSA_SIGN_PSS_4096_SHA512, SHA512)]"

definition is_CreateCryptoKey :: "event \<Rightarrow> bool" where
  "is_CreateCryptoKey e = (case e of Call_CreateCryptoKey c r \<Rightarrow> True | _ \<Rightarrow> False)"

text \<open>The remote calls that a resolution makes, with the context they carry.\<close>

fun resolution_call :: "context \<Rightarrow> event \<Rightarrow> bool" where
  "resolution_call c (Call_GetCryptoKey c' n) = (c' = c)"
| "resolution_call c (Call_GetCryptoKeyVersion c' n) = (c' = c)"
| "resolution_call c (Call_ListCryptoKeyVersions c' r) = (c' = c)"
| "resolution_call c (Call_GetPublicKey c' n) = (c' = c)"
| "resolution_call c (Call_AsymmetricSign c' r) = False"
| "resolution_call c (Call_CreateCryptoKey c' r) = False"
| "resolution_call c (Call_GetKeyRing c' n) = False"
| "resolution_call c (Call_CreateKeyRing c' r) = False"
| "resolution_call c (Local_VerifySignature sv) = False"

subsection \<open>A small service to run the client against\<close>

text \<open>
  A service with one key ring and one key: whether the ring exists, the purpose of the key
  if it exists, its enabled versions (greatest name first) with the PEM of each, and the
  reply it gives to every signing request. The readers of a verification carry the public
  key whose private half made the signature.
\<close>

record mock =
  ring_exists :: bool
  key_purpose :: "Purpose option"
  versions :: "(CryptoKeyVersion \<times> string) list"
  sign_reply :: "error + AsymmetricSignResponse"

definition decodePEM :: "string \<Rightarrow> error + PublicKey" where
  "decodePEM pem =
     (case pem of
        [] \<Rightarrow> Inl (New ''invalid PEM'')
      | c # cs \<Rightarrow>
          if c = CHR ''E'' then Inr (ECDSA_PublicKey (length cs))
          else if c = CHR ''R'' then Inr (RSA_PublicKey (length cs))
          else Inr (Other_PublicKey (length cs)))"

definition mockEnv :: "mock \<Rightarrow> (mock, PublicKey) env" where
  "mockEnv s0 =
     \<lparr>NewKeyManagementClient = (\<lambda>ctx. Inr s0),
      GetCryptoKey = (\<lambda>ctx name s.
        (case key_purpose s of
           None \<Rightarrow> Inl (Status 5)
         | Some p \<Rightarrow> Inr \<lparr>key_Purpose = p\<rparr>, s)),
      GetCryptoKeyVersion = (\<lambda>ctx name s.
        (case find (\<lambda>v. kv_Name (fst v) = name) (versions s) of
           None \<Rightarrow> Inl (Status 5)
         | Some v \<Rightarrow> Inr (fst v), s)),
      ListCryptoKeyVersions = (\<lambda>ctx req s.
        (case versions s of
           [] \<Rightarrow> Inl (Status 5)
         | v # vs \<Rightarrow> Inr (fst v), s)),
      GetPublicKey = (\<lambda>ctx name s.
        (case find (\<lambda>v. kv_Name (fst v) = name) (versions s) of
           None \<Rightarrow> Inl (Status 5)
         | Some v \<Rightarrow> Inr (snd v), s)),
      AsymmetricSign = (\<lambda>ctx req s. (sign_reply s, s)),
      CreateCryptoKey = (\<lambda>ctx req s.
        (Inr \<lparr>key_Purpose = ckr_Purpose req\<rparr>,
         s\<lparr>key_purpose := Some (ckr_Purpose req),
           versions := [(\<lparr>kv_Name = ckr_Parent req @ ''/cryptoKeys/'' @ ckr_CryptoKeyId req
                               @ ''/cryptoKeyVersions/1'',
                         kv_Algorithm = ckr_Algorithm req\<rparr>, ''R0'')]\<rparr>)),
      GetKeyRing = (\<lambda>ctx name s.
        (if ring_exists s then Inr name else Inl (Status 5), s)),
      CreateKeyRing = (\<lambda>ctx req s.
        (Inr (krr_KeyRingId req), s\<lparr>ring_exists := True\<rparr>)),
      UnmarshalPEMToPublicKey = decodePEM,
      VerifySignature = (\<lambda>sv r.
        (if sv_PublicKey sv = r then None else Some (New ''invalid signature''), r))\<rparr>"

text \<open>A client for the key \<open>k\<close> of the ring \<open>r\<close>, with an empty cache that skips extension.\<close>

definition mockClient :: "string \<Rightarrow> mock \<Rightarrow> mock gcpClient" where
  "mockClient v s =
     \<lparr>defaultCtx = Background, refString = [], projectID = ''p'', locationID = ''l'',
      keyRing = ''r'', keyName = ''k'', version = v,
      kvCache = SkipTTLExtensionOnHit True NewCache, kmsClient = s, trace = []\<rparr>"

definition version1 :: CryptoKeyVersion where
  "version1 = \<lparr>kv_Name = ''projects/p/locations/l/keyRings/r/cryptoKeys/k/cryptoKeyVersions/1'',
                kv_Algorithm = EC_SIGN_P384_SHA384\<rparr>"

definition version2 :: CryptoKeyVersion where
  "version2 = \<lparr>kv_Name = ''projects/p/locations/l/keyRings/r/cryptoKeys/k/cryptoKeyVersions/2'',
                kv_Algorithm = RSA_SIGN_PSS_2048_SHA256\<rparr>"

definition reply :: "64 word \<Rightarrow> bool \<Rightarrow> error + AsymmetricSignResponse" where
  "reply c v = Inr \<lparr>resp_Signature = [0x31], resp_SignatureCrc32C = Some c,
                    resp_VerifiedDigestCrc32C = v\<rparr>"

text \<open>The service with version 1 enabled, and after a rotation to version 2.\<close>

definition service1 :: "(error + AsymmetricSignResponse) \<Rightarrow> mock" where
  "service1 rep = \<lparr>ring_exists = True, key_purpose = Some ASYMMETRIC_SIGN,
                   versions = [(version1, ''E1'')], sign_reply = rep\<rparr>"

definition service2 :: "(error + AsymmetricSignResponse) \<Rightarrow> mock" where
  "service2 rep = \<lparr>ring_exists = True, key_purpose = Some ASYMMETRIC_SIGN,
                   versions = [(version2, ''R22''), (version1, ''E1'')], sign_reply = rep\<rparr>"

definition bare_reply :: "error + AsymmetricSignResponse" where
  "bare_reply = Inr \<lparr>resp_Signature = [0x31], resp_SignatureCrc32C = None,
                     resp_VerifiedDigestCrc32C = True\<rparr>"

text \<open>The service whose only enabled version is an ECDSA P-256 key.\<close>

definition version_p256 :: CryptoKeyVersion where
  "version_p256 = \<lparr>kv_Name = ''projects/p/locations/l/keyRings/r/cryptoKeys/k/cryptoKeyVersions/1'',
                    kv_Algorithm = EC_SIGN_P256_SHA256\<rparr>"

definition service_p256 :: mock where
  "service_p256 = \<lparr>ring_exists = True, key_purpose = Some ASYMMETRIC_SIGN,
                    versions = [(version_p256, ''E1'')], sign_reply = bare_reply\<rparr>"



text \<open>The service with the key ring and no key in it.\<close>

definition service_nokey :: mock where
  "service_nokey = \<lparr>ring_exists = True, key_purpose = None, versions = [],
                     sign_reply = bare_reply\<rparr>"

text \<open>
  A client whose cache was filled at instant 0 from the service with version 1, after
  which the state of the service has become \<open>s\<close>.
\<close>

definition primedClient :: "string \<Rightarrow> mock \<Rightarrow> mock gcpClient" where
  "primedClient v s =
     (snd (getCKV (mockEnv (service1 bare_reply)) 0 (mockClient v (service1 bare_reply))))
       \<lparr>kmsClient := s\<rparr>"

section \<open>Properties\<close>

subsection \<open>The checksum on concrete inputs\<close>

text \<open>The CRC-32C of the one byte \<open>0x31\<close>.\<close>

lemma Checksum_0x31: "Checksum [0x31] (MakeTable Castagnoli) = 0x90F599E3"
  by code_simp

text \<open>
  One step of the loop of \<^verbatim>\<open>Update\<close> on a byte, from one state of the register to
  the next, for the nine bytes of \<^verbatim>\<open>123456789\<close>.
\<close>

lemma crc_steps:
  "MakeTable Castagnoli (ucast (0xFFFFFFFF :: 32 word) XOR 0x31) XOR drop_bit 8 0xFFFFFFFF = 0x6f0a661c"
  "MakeTable Castagnoli (ucast (0x6f0a661c :: 32 word) XOR 0x32) XOR drop_bit 8 0x6f0a661c = 0x8caa3b9f"
  "MakeTable Castagnoli (ucast (0x8caa3b9f :: 32 word) XOR 0x33) XOR drop_bit 8 0x8caa3b9f = 0xef84d04d"
  "MakeTable Castagnoli (ucast (0xef84d04d :: 32 word) XOR 0x34) XOR drop_bit 8 0xef84d04d = 0x09c50b11"
  "MakeTable Castagnoli (ucast (0x09c50b11 :: 32 word) XOR 0x35) XOR drop_bit 8 0x09c50b11 = 0xe72edcca"
  "MakeTable Castagnoli (ucast (0xe72edcca :: 32 word) XOR 0x36) XOR drop_bit 8 0xe72edcca = 0xbeca8e79"
  "MakeTable Castagnoli (ucast (0xbeca8e79 :: 32 word) XOR 0x37) XOR drop_bit 8 0xbeca8e79 = 0xedbd6815"
  "MakeTable Castagnoli (ucast (0xedbd6815 :: 32 word) XOR 0x38) XOR drop_bit 8 0xedbd6815 = 0x9f787f65"
  "MakeTable Castagnoli (ucast (0x9f787f65 :: 32 word) XOR 0x39) XOR drop_bit 8 0x9f787f65 = 0x1cf96d7c"
  by code_simp+

text \<open>The CRC-32C of \<^verbatim>\<open>123456789\<close> is the check value \<^verbatim>\<open>0xE3069283\<close> of the standard.\<close>

lemma Checksum_check_value:
  "Checksum [0x31, 0x32, 0x33, 0x34, 0x35, 0x36, 0x37, 0x38, 0x39] (MakeTable Castagnoli)
     = 0xE3069283"
proof -
  have n: "NOT (0 :: 32 word) = 0xFFFFFFFF"
    by simp
  have m: "NOT (0x1cf96d7c :: 32 word) = 0xE3069283"
    by simp
  show ?thesis
    unfolding Checksum_def Update_def n
    by (simp only: foldl_Cons foldl_Nil crc_steps m)
qed

subsection \<open>\<^verbatim>\<open>sign\<close> once the request has been answered\<close>

lemma sign_dispatched:
  assumes "fst (getCKV K t g) = Ok ckv"
    and "signRequest ckv digest alg crc = Inr req"
    and "fst (AsymmetricSign K ctx req (kmsClient (snd (getCKV K t g)))) = Inr resp"
  shows "fst (sign K t ctx digest alg crc g) = checkResponse crc resp"
    and "trace (snd (sign K t ctx digest alg crc g))
           = trace (snd (getCKV K t g)) @ [Call_AsymmetricSign ctx req]"
  using assms by (auto simp: sign_def invoke_def split: prod.splits sum.splits outcome.splits)

subsection \<open>Integrity of signing requests and responses\<close>

text \<open>
  C4, as amended. The claim that \<^verbatim>\<open>sign\<close> fails with the response-corrupted error
  exactly when the recomputed CRC-32C of the signature differs from the checksum the
  service claims is false when the caller supplied a nonzero checksum that the service
  did not verify: the request-corrupted error is returned first. For every call whose
  request was answered, whose request check passes (zero checksum, or verified by the
  service) and whose response carries a signature checksum, \<^verbatim>\<open>sign\<close> returns the
  response-corrupted error exactly when the recomputed CRC-32C (Castagnoli) of the
  signature differs from the claimed checksum, and otherwise returns the signature
  bytes unmodified.
\<close>

theorem sign_response_integrity:
  assumes "fst (getCKV K t g) = Ok ckv"
    and "signRequest ckv digest alg crc = Inr req"
    and "fst (AsymmetricSign K ctx req (kmsClient (snd (getCKV K t g)))) = Inr resp"
    and "crc = 0 \<or> resp_VerifiedDigestCrc32C resp"
    and "resp_SignatureCrc32C resp = Some v"
  shows "fst (sign K t ctx digest alg crc g) =
           (if ucast (Checksum (resp_Signature resp) (MakeTable Castagnoli)) \<noteq> v
            then Err (New ''AsymmetricSign: response corrupted in-transit'')
            else Ok (resp_Signature resp))"
  unfolding sign_dispatched(1) [OF assms(1-3)]
  using assms(4,5) by (auto simp: checkResponse_def)

theorem sign_response_integrity_witness:
  "fst (sign (mockEnv (service1 (reply 0x90F599E3 True))) 0 (Caller 1) [0x61] SHA256 0
          (mockClient [] (service1 (reply 0x90F599E3 True)))) = Ok [0x31]"
proof -
  let ?S = "service1 (reply 0x90F599E3 True)"
  let ?req = "\<lparr>req_Name = ''projects/p/locations/l/keyRings/r/cryptoKeys/k/cryptoKeyVersions/1'', req_Digest = Some (Digest_Sha256 [0x61]),
               req_DigestCrc32C = None\<rparr>"
  let ?ckv = "\<lparr>ckv_CryptoKeyVersion = version1,
      ckv_SignerVerifier = \<lparr>sv_scheme = ECDSA, sv_PublicKey = ECDSA_PublicKey 1, sv_hash = SHA384\<rparr>,
      ckv_HashFunc = SHA384\<rparr>"
  let ?resp = "\<lparr>resp_Signature = [0x31], resp_SignatureCrc32C = Some 0x90F599E3,
                resp_VerifiedDigestCrc32C = True\<rparr>"
  have h1: "fst (getCKV (mockEnv ?S) 0 (mockClient [] ?S)) = Ok ?ckv"
    by code_simp
  have h2: "signRequest ?ckv [0x61] SHA256 0 = Inr ?req"
    by code_simp
  have h3: "fst (AsymmetricSign (mockEnv ?S) (Caller 1) ?req
               (kmsClient (snd (getCKV (mockEnv ?S) 0 (mockClient [] ?S))))) = Inr ?resp"
    by code_simp
  have h4: "(0 :: 32 word) = 0 \<or> resp_VerifiedDigestCrc32C ?resp"
    by simp
  have h5: "resp_SignatureCrc32C ?resp = Some 0x90F599E3"
    by simp
  show ?thesis
    using sign_response_integrity [OF h1 h2 h3 h4 h5] by (simp add: Checksum_0x31)
qed

text \<open>
  The claim of C4 as stated fails here: the request is answered, the checksum 0 that the
  service claims differs from the CRC-32C of the signature, and the error is the
  request-corrupted one.
\<close>

theorem sign_response_integrity_counterexample:
  "fst (sign (mockEnv (service1 (reply 0 False))) 0 (Caller 1) [0x61] SHA256 7
          (mockClient [] (service1 (reply 0 False))))
     = Err (New ''AsymmetricSign: request corrupted in-transit'')
   \<and> trace (snd (sign (mockEnv (service1 (reply 0 False))) 0 (Caller 1) [0x61] SHA256 7
          (mockClient [] (service1 (reply 0 False)))))
     = [Call_GetCryptoKey Background ''projects/p/locations/l/keyRings/r/cryptoKeys/k'',
        Call_ListCryptoKeyVersions Background
          \<lparr>list_Parent = ''projects/p/locations/l/keyRings/r/cryptoKeys/k'',
           list_Filter = ''state=ENABLED'', list_OrderBy = ''name desc''\<rparr>,
        Call_GetPublicKey Background
          ''projects/p/locations/l/keyRings/r/cryptoKeys/k/cryptoKeyVersions/1'',
        Call_AsymmetricSign (Caller 1)
          \<lparr>req_Name = ''projects/p/locations/l/keyRings/r/cryptoKeys/k/cryptoKeyVersions/1'', req_Digest = Some (Digest_Sha256 [0x61]),
           req_DigestCrc32C = Some 7\<rparr>]
   \<and> (ucast (Checksum [0x31] (MakeTable Castagnoli)) :: 64 word) \<noteq> 0"
  by code_simp

text \<open>
  C5. For a nonzero checksum the request sent to the service carries it, and when the
  response reports that the digest checksum did not verify, \<^verbatim>\<open>sign\<close> returns the
  request-corrupted error; the request is sent once, whatever the answer. For a zero
  checksum the request carries none and the request-corrupted error is never returned.
\<close>

theorem sign_request_checksum:
  assumes "fst (getCKV K t g) = Ok ckv"
    and "signRequest ckv digest alg crc = Inr req"
  shows "req_DigestCrc32C req = (if crc \<noteq> 0 then Some (ucast crc) else None)
       \<and> trace (snd (sign K t ctx digest alg crc g))
           = trace (snd (getCKV K t g)) @ [Call_AsymmetricSign ctx req]
       \<and> (crc \<noteq> 0 \<longrightarrow>
            fst (AsymmetricSign K ctx req (kmsClient (snd (getCKV K t g)))) = Inr resp \<longrightarrow>
            \<not> resp_VerifiedDigestCrc32C resp \<longrightarrow>
            fst (sign K t ctx digest alg crc g)
              = Err (New ''AsymmetricSign: request corrupted in-transit''))
       \<and> (crc = 0 \<longrightarrow>
            fst (sign K t ctx digest alg crc g)
              \<noteq> Err (New ''AsymmetricSign: request corrupted in-transit''))"
proof (intro conjI impI)
  show "req_DigestCrc32C req = (if crc \<noteq> 0 then Some (ucast crc) else None)"
    using assms(2) by (auto simp: signRequest_def Let_def split: option.splits)
  show "trace (snd (sign K t ctx digest alg crc g))
          = trace (snd (getCKV K t g)) @ [Call_AsymmetricSign ctx req]"
    using assms by (auto simp: sign_def invoke_def split: prod.splits sum.splits)
next
  assume "crc \<noteq> 0"
    and "fst (AsymmetricSign K ctx req (kmsClient (snd (getCKV K t g)))) = Inr resp"
    and "\<not> resp_VerifiedDigestCrc32C resp"
  then show "fst (sign K t ctx digest alg crc g)
               = Err (New ''AsymmetricSign: request corrupted in-transit'')"
    using sign_dispatched(1) [OF assms] by (simp add: checkResponse_def)
next
  assume "crc = 0"
  then show "fst (sign K t ctx digest alg crc g)
               \<noteq> Err (New ''AsymmetricSign: request corrupted in-transit'')"
    using assms
    by (auto simp: sign_def invoke_def checkResponse_def
             split: prod.splits sum.splits option.splits if_splits)
qed

theorem sign_request_checksum_witness:
  "fst (sign (mockEnv (service1 (reply 0x90F599E3 False))) 0 (Caller 1) [0x61] SHA256 7
          (mockClient [] (service1 (reply 0x90F599E3 False))))
     = Err (New ''AsymmetricSign: request corrupted in-transit'')"
proof -
  let ?S = "service1 (reply 0x90F599E3 False)"
  let ?req = "\<lparr>req_Name = ''projects/p/locations/l/keyRings/r/cryptoKeys/k/cryptoKeyVersions/1'', req_Digest = Some (Digest_Sha256 [0x61]),
               req_DigestCrc32C = Some 7\<rparr>"
  let ?ckv = "\<lparr>ckv_CryptoKeyVersion = version1,
      ckv_SignerVerifier = \<lparr>sv_scheme = ECDSA, sv_PublicKey = ECDSA_PublicKey 1, sv_hash = SHA384\<rparr>,
      ckv_HashFunc = SHA384\<rparr>"
  let ?resp = "\<lparr>resp_Signature = [0x31], resp_SignatureCrc32C = Some 0x90F599E3,
                resp_VerifiedDigestCrc32C = False\<rparr>"
  have h1: "fst (getCKV (mockEnv ?S) 0 (mockClient [] ?S)) = Ok ?ckv"
    by code_simp
  have h2: "signRequest ?ckv [0x61] SHA256 7 = Inr ?req"
    by code_simp
  have h3: "fst (AsymmetricSign (mockEnv ?S) (Caller 1) ?req
               (kmsClient (snd (getCKV (mockEnv ?S) 0 (mockClient [] ?S))))) = Inr ?resp"
    by code_simp
  show ?thesis
    using sign_request_checksum [OF h1 h2, of "Caller 1" ?resp] h3 by simp
qed

text \<open>
  C10. When the request was answered and the response carries no signature checksum, the
  comparison of line 326 dereferences a nil pointer: unless the request check has already
  returned its error, \<^verbatim>\<open>sign\<close> panics instead of returning an error; and it panics
  in no other case, so it returns only if every answer that reaches the comparison carries
  a signature checksum.
\<close>

theorem sign_absent_signature_checksum:
  assumes "fst (getCKV K t g) = Ok ckv"
    and "signRequest ckv digest alg crc = Inr req"
    and "fst (AsymmetricSign K ctx req (kmsClient (snd (getCKV K t g)))) = Inr resp"
  shows "(resp_SignatureCrc32C resp = None \<longrightarrow>
            fst (sign K t ctx digest alg crc g) =
              (if crc \<noteq> 0 \<and> \<not> resp_VerifiedDigestCrc32C resp
               then Err (New ''AsymmetricSign: request corrupted in-transit'')
               else Panic NilDereference))
       \<and> ((\<exists>p. fst (sign K t ctx digest alg crc g) = Panic p) \<longleftrightarrow>
            resp_SignatureCrc32C resp = None \<and> (crc = 0 \<or> resp_VerifiedDigestCrc32C resp))"
  unfolding sign_dispatched(1) [OF assms]
  by (auto simp: checkResponse_def split: option.splits)

theorem sign_absent_signature_checksum_witness:
  "fst (sign (mockEnv (service1 bare_reply)) 0 (Caller 1) [0x61] SHA256 0
          (mockClient [] (service1 bare_reply))) = Panic NilDereference"
proof -
  let ?S = "service1 bare_reply"
  let ?req = "\<lparr>req_Name = ''projects/p/locations/l/keyRings/r/cryptoKeys/k/cryptoKeyVersions/1'', req_Digest = Some (Digest_Sha256 [0x61]),
               req_DigestCrc32C = None\<rparr>"
  let ?ckv = "\<lparr>ckv_CryptoKeyVersion = version1,
      ckv_SignerVerifier = \<lparr>sv_scheme = ECDSA, sv_PublicKey = ECDSA_PublicKey 1, sv_hash = SHA384\<rparr>,
      ckv_HashFunc = SHA384\<rparr>"
  let ?resp = "\<lparr>resp_Signature = [0x31], resp_SignatureCrc32C = None,
                resp_VerifiedDigestCrc32C = True\<rparr>"
  have h1: "fst (getCKV (mockEnv ?S) 0 (mockClient [] ?S)) = Ok ?ckv"
    by code_simp
  have h2: "signRequest ?ckv [0x61] SHA256 0 = Inr ?req"
    by code_simp
  have h3: "fst (AsymmetricSign (mockEnv ?S) (Caller 1) ?req
               (kmsClient (snd (getCKV (mockEnv ?S) 0 (mockClient [] ?S))))) = Inr ?resp"
    by code_simp
  show ?thesis
    using sign_absent_signature_checksum [OF h1 h2 h3] by simp
qed

subsection \<open>Key references\<close>

lemma run_Lit_iff: "(s', c') \<in> set (run (Lit l) s c) \<longleftrightarrow> s = l @ s' \<and> c' = c"
  by (auto simp: append_eq_conv_conj) (metis append_take_drop_id)

lemma run_PlusNot_iff:
  "(s', c') \<in> set (run (PlusNot x) s c) \<longleftrightarrow> c' = c \<and> (\<exists>u. u \<noteq> [] \<and> x \<notin> set u \<and> s = u @ s')"
proof -
  let ?P = "\<lambda>y. y \<noteq> x"
  let ?n = "length (takeWhile ?P s)"
  have mem: "(s', c') \<in> set (run (PlusNot x) s c) \<longleftrightarrow> c' = c \<and> (\<exists>k. 1 \<le> k \<and> k \<le> ?n \<and> s' = drop k s)"
    by (auto simp: image_iff)
  have "(\<exists>k. 1 \<le> k \<and> k \<le> ?n \<and> s' = drop k s) \<longleftrightarrow> (\<exists>u. u \<noteq> [] \<and> x \<notin> set u \<and> s = u @ s')"
  proof
    assume "\<exists>k. 1 \<le> k \<and> k \<le> ?n \<and> s' = drop k s"
    then obtain k where k: "1 \<le> k" "k \<le> ?n" "s' = drop k s" by blast
    have len: "?n \<le> length s" by (rule length_takeWhile_le)
    have tk: "take k s = take k (takeWhile ?P s)"
      using k(2) by (metis takeWhile_dropWhile_id take_append diff_is_0_eq' take_0 append_Nil2)
    have "x \<notin> set (take k s)"
      unfolding tk using set_takeWhileD in_set_takeD by fastforce
    moreover have "take k s \<noteq> []" using k(1,2) len by auto
    moreover have "s = take k s @ s'" using k(3) by simp
    ultimately show "\<exists>u. u \<noteq> [] \<and> x \<notin> set u \<and> s = u @ s'" by blast
  next
    assume "\<exists>u. u \<noteq> [] \<and> x \<notin> set u \<and> s = u @ s'"
    then obtain u where u: "u \<noteq> []" "x \<notin> set u" "s = u @ s'" by blast
    have "takeWhile ?P s = u @ takeWhile ?P s'"
      unfolding u(3) using u(2) by (intro takeWhile_append2) auto
    then have "length u \<le> ?n" by simp
    moreover have "1 \<le> length u" using u(1) by (cases u) auto
    moreover have "s' = drop (length u) s" using u(3) by simp
    ultimately show "\<exists>k. 1 \<le> k \<and> k \<le> ?n \<and> s' = drop k s" by blast
  qed
  with mem show ?thesis by simp
qed

lemma run_Group_iff:
  "(s', c') \<in> set (run (Group i r) s c) \<longleftrightarrow>
     (\<exists>c0. (s', c0) \<in> set (run r s c) \<and> c' = c0[i := Some (take (length s - length s') s)])"
  by (auto simp: image_iff) force

lemma run_Seq_iff:
  "(s'', c'') \<in> set (run (Seq a b) s c) \<longleftrightarrow>
     (\<exists>s' c'. (s', c') \<in> set (run a s c) \<and> (s'', c'') \<in> set (run b s' c'))"
  by auto

lemma run_Opt_iff:
  "(s', c') \<in> set (run (Opt r) s c) \<longleftrightarrow> (s', c') \<in> set (run r s c) \<or> (s' = s \<and> c' = c)"
  by auto


lemma run_token_iff:
  "(s', c') \<in> set (run (Group i (PlusNot (CHR ''/''))) s c) \<longleftrightarrow>
     (\<exists>u. token u \<and> s = u @ s' \<and> c' = c[i := Some u])"
  unfolding run_Group_iff run_PlusNot_iff token_def by auto

lemma run_segment_iff:
  "(s'', c'') \<in> set (run (Seq (Lit l) (Seq (Group i (PlusNot (CHR ''/''))) rest)) s c) \<longleftrightarrow>
     (\<exists>u s1. token u \<and> s = l @ u @ s1 \<and> (s'', c'') \<in> set (run rest s1 (c[i := Some u])))"
  unfolding run_Seq_iff run_Lit_iff run_token_iff by auto

lemma run_version_iff:
  "([], c'') \<in> set (run (Opt (Seq (Lit l) (Group i (PlusNot (CHR ''/''))))) s c) \<longleftrightarrow>
     (s = [] \<and> c'' = c) \<or> (\<exists>u. token u \<and> s = l @ u \<and> c'' = c[i := Some u])"
  unfolding run_Opt_iff run_Seq_iff run_Lit_iff run_token_iff by auto


lemma run_re_nested:
  "([], c'') \<in> set (run re s c) \<longleftrightarrow>
     (\<exists>P s1. token P \<and> s = ''gcpkms://projects/'' @ P @ s1 \<and>
      (\<exists>L s2. token L \<and> s1 = ''/locations/'' @ L @ s2 \<and>
       (\<exists>R s3. token R \<and> s2 = ''/keyRings/'' @ R @ s3 \<and>
        (\<exists>K s4. token K \<and> s3 = ''/cryptoKeys/'' @ K @ s4 \<and>
           (s4 = [] \<and> c'' = c[1 := Some P, 2 := Some L, 3 := Some R, 4 := Some K]
            \<or> (\<exists>V. token V \<and> s4 = ''/versions/'' @ V \<and>
                  c'' = c[1 := Some P, 2 := Some L, 3 := Some R, 4 := Some K, 5 := Some V]))))))"
  unfolding re_def run_segment_iff run_version_iff by (rule refl)

lemma run_re_unpinned:
  assumes "token P" "token L" "token R" "token K"
  shows "([], c[1 := Some P, 2 := Some L, 3 := Some R, 4 := Some K])
           \<in> set (run re (unpinned_ref P L R K) c)"
  unfolding run_re_nested unpinned_ref_def
  apply (rule exI [of _ P], rule exI, intro conjI, rule assms, rule refl)
  apply (rule exI [of _ L], rule exI, intro conjI, rule assms, rule refl)
  apply (rule exI [of _ R], rule exI, intro conjI, rule assms, rule refl)
  apply (rule exI [of _ K], rule exI [of _ "[]"], intro conjI, rule assms, simp)
  apply simp
  done

lemma run_re_pinned:
  assumes "token P" "token L" "token R" "token K" "token V"
  shows "([], c[1 := Some P, 2 := Some L, 3 := Some R, 4 := Some K, 5 := Some V])
           \<in> set (run re (pinned_ref P L R K V) c)"
  unfolding run_re_nested unpinned_ref_def pinned_ref_def append_assoc
  apply (rule exI [of _ P], rule exI, intro conjI, rule assms, rule refl)
  apply (rule exI [of _ L], rule exI, intro conjI, rule assms, rule refl)
  apply (rule exI [of _ R], rule exI, intro conjI, rule assms, rule refl)
  apply (rule exI [of _ K], rule exI, intro conjI, rule assms, rule refl)
  apply (rule disjI2, rule exI [of _ V], intro conjI, rule assms, rule refl, rule refl)
  done

lemma run_re_elim:
  assumes "([], c'') \<in> set (run re s c)"
  obtains P L R K where "token P" "token L" "token R" "token K"
      "s = unpinned_ref P L R K" "c'' = c[1 := Some P, 2 := Some L, 3 := Some R, 4 := Some K]"
  | P L R K V where "token P" "token L" "token R" "token K" "token V"
      "s = pinned_ref P L R K V"
      "c'' = c[1 := Some P, 2 := Some L, 3 := Some R, 4 := Some K, 5 := Some V]"
proof -
  from assms obtain P s1 L s2 R s3 K s4 where
    t: "token P" "token L" "token R" "token K" and
    s: "s = ''gcpkms://projects/'' @ P @ s1" "s1 = ''/locations/'' @ L @ s2"
       "s2 = ''/keyRings/'' @ R @ s3" "s3 = ''/cryptoKeys/'' @ K @ s4" and
    d: "s4 = [] \<and> c'' = c[1 := Some P, 2 := Some L, 3 := Some R, 4 := Some K]
        \<or> (\<exists>V. token V \<and> s4 = ''/versions/'' @ V \<and>
              c'' = c[1 := Some P, 2 := Some L, 3 := Some R, 4 := Some K, 5 := Some V])"
    unfolding run_re_nested by blast
  from d show thesis
  proof
    assume a: "s4 = [] \<and> c'' = c[1 := Some P, 2 := Some L, 3 := Some R, 4 := Some K]"
    have "s = unpinned_ref P L R K"
      unfolding unpinned_ref_def s using a by simp
    with t a that(1) show thesis by blast
  next
    assume "\<exists>V. token V \<and> s4 = ''/versions/'' @ V \<and>
              c'' = c[1 := Some P, 2 := Some L, 3 := Some R, 4 := Some K, 5 := Some V]"
    then obtain V where v: "token V" "s4 = ''/versions/'' @ V"
      "c'' = c[1 := Some P, 2 := Some L, 3 := Some R, 4 := Some K, 5 := Some V]" by blast
    have "s = pinned_ref P L R K V"
      unfolding unpinned_ref_def pinned_ref_def s v by simp
    with t v that(2) show thesis by blast
  qed
qed

lemma token_prefix_unique:
  assumes "CHR ''/'' \<notin> set u" "CHR ''/'' \<notin> set u'"
    and "a = [] \<or> hd a = CHR ''/''" "b = [] \<or> hd b = CHR ''/''"
    and "u @ a = u' @ b"
  shows "u = u' \<and> a = b"
proof -
  let ?P = "\<lambda>y. y \<noteq> CHR ''/''"
  have ta: "takeWhile ?P a = []"
    using assms(3) by (cases a) auto
  have tb: "takeWhile ?P b = []"
    using assms(4) by (cases b) auto
  have "takeWhile ?P (u @ a) = u @ takeWhile ?P a"
    using assms(1) by (intro takeWhile_append2) auto
  moreover have "takeWhile ?P (u' @ b) = u' @ takeWhile ?P b"
    using assms(2) by (intro takeWhile_append2) auto
  ultimately have "u = u'"
    using ta tb assms(5) by simp
  with assms(5) show ?thesis by simp
qed

lemma reference_unique:
  assumes "token P" "token L" "token R" "token K" "token P'" "token L'" "token R'" "token K'"
    and "x = [] \<or> hd x = CHR ''/''" "x' = [] \<or> hd x' = CHR ''/''"
    and "unpinned_ref P L R K @ x = unpinned_ref P' L' R' K' @ x'"
  shows "P = P' \<and> L = L' \<and> R = R' \<and> K = K' \<and> x = x'"
proof -
  have 1: "P @ (''/locations/'' @ L @ ''/keyRings/'' @ R @ ''/cryptoKeys/'' @ K @ x)
         = P' @ (''/locations/'' @ L' @ ''/keyRings/'' @ R' @ ''/cryptoKeys/'' @ K' @ x')"
    using assms(11) by (simp add: unpinned_ref_def)
  have p: "P = P'" and 2: "L @ (''/keyRings/'' @ R @ ''/cryptoKeys/'' @ K @ x)
         = L' @ (''/keyRings/'' @ R' @ ''/cryptoKeys/'' @ K' @ x')"
    using token_prefix_unique [OF _ _ _ _ 1] assms(1,5) by (simp_all add: token_def)
  have l: "L = L'" and 3: "R @ (''/cryptoKeys/'' @ K @ x) = R' @ (''/cryptoKeys/'' @ K' @ x')"
    using token_prefix_unique [OF _ _ _ _ 2] assms(2,6) by (simp_all add: token_def)
  have r: "R = R'" and 4: "K @ x = K' @ x'"
    using token_prefix_unique [OF _ _ _ _ 3] assms(3,7) by (simp_all add: token_def)
  have "K = K' \<and> x = x'"
    using token_prefix_unique [OF _ _ assms(9,10) 4] assms(4,8) by (simp add: token_def)
  with p l r show ?thesis by simp
qed

lemma find_Some_mem: "find Q xs = Some x \<Longrightarrow> Q x \<and> x \<in> set xs"
  by (induction xs) (auto split: if_splits)

lemma captures_unpinned:
  "((replicate (Suc 5) None)[1 := Some P, 2 := Some L, 3 := Some R, 4 := Some K])[0 := Some s]
     = [Some s, Some P, Some L, Some R, Some K, None]"
  by (simp add: eval_nat_numeral)

lemma captures_pinned:
  "((replicate (Suc 5) None)[1 := Some P, 2 := Some L, 3 := Some R, 4 := Some K, 5 := Some V])
      [0 := Some s]
     = [Some s, Some P, Some L, Some R, Some K, Some V]"
  by (simp add: eval_nat_numeral)

lemma firstMatch_None_iff: "firstMatch re 5 s = None \<longleftrightarrow> \<not> reference_grammar s"
proof -
  define xs where "xs = run re s (replicate (Suc 5) None)"
  have "(\<exists>m \<in> set xs. fst m = []) \<longleftrightarrow> reference_grammar s"
  proof
    assume "\<exists>m \<in> set xs. fst m = []"
    then obtain m where "m \<in> set xs" "fst m = []" by blast
    then have "([], snd m) \<in> set (run re s (replicate (Suc 5) None))"
      unfolding xs_def by (metis prod.collapse)
    then show "reference_grammar s"
    proof (rule run_re_elim)
      fix P L R K
      assume "token P" "token L" "token R" "token K" "s = unpinned_ref P L R K"
      then show ?thesis unfolding reference_grammar_def by blast
    next
      fix P L R K V
      assume "token P" "token L" "token R" "token K" "token V" "s = pinned_ref P L R K V"
      then show ?thesis unfolding reference_grammar_def by blast
    qed
  next
    assume "reference_grammar s"
    then obtain P L R K where t: "token P" "token L" "token R" "token K"
      and d: "s = unpinned_ref P L R K \<or> (\<exists>V. token V \<and> s = pinned_ref P L R K V)"
      unfolding reference_grammar_def by blast
    from d obtain c where "([], c) \<in> set xs"
    proof
      assume "s = unpinned_ref P L R K"
      with run_re_unpinned [OF t] that show thesis unfolding xs_def by blast
    next
      assume "\<exists>V. token V \<and> s = pinned_ref P L R K V"
      then obtain V where "token V" "s = pinned_ref P L R K V" by blast
      with run_re_pinned [OF t] that show thesis unfolding xs_def by blast
    qed
    then show "\<exists>m \<in> set xs. fst m = []"
      by (intro bexI [of _ "([], c)"]) simp_all
  qed
  moreover have "firstMatch re 5 s = None \<longleftrightarrow> find (\<lambda>m. fst m = []) xs = None"
    unfolding firstMatch_def xs_def by (simp split: option.splits)
  moreover have "find (\<lambda>m. fst m = []) xs = None \<longleftrightarrow> \<not> (\<exists>m \<in> set xs. fst m = [])"
    unfolding find_None_iff by blast
  ultimately show ?thesis by simp
qed
lemma firstMatch_SomeD:
  assumes "firstMatch re 5 s = Some c'"
  obtains c'' where "([], c'') \<in> set (run re s (replicate (Suc 5) None))"
    and "c' = c''[0 := Some s]"
proof -
  from assms obtain m where f: "find (\<lambda>m. fst m = []) (run re s (replicate (Suc 5) None)) = Some m"
    and c: "c' = (snd m)[0 := Some s]"
    by (auto simp: firstMatch_def split: option.splits)
  from find_Some_mem [OF f] have "([], snd m) \<in> set (run re s (replicate (Suc 5) None))"
    by (metis prod.collapse)
  with c that show thesis by blast
qed

lemma firstMatch_unpinned:
  assumes "token P" "token L" "token R" "token K"
  shows "firstMatch re 5 (unpinned_ref P L R K)
           = Some [Some (unpinned_ref P L R K), Some P, Some L, Some R, Some K, None]"
proof -
  let ?s = "unpinned_ref P L R K"
  let ?c = "replicate (Suc 5) None :: captures"
  have "reference_grammar ?s"
    using assms unfolding reference_grammar_def by blast
  then obtain c' where f: "firstMatch re 5 ?s = Some c'"
    using firstMatch_None_iff [of ?s] by auto
  then obtain c'' where m: "([], c'') \<in> set (run re ?s ?c)" "c' = c''[0 := Some ?s]"
    by (rule firstMatch_SomeD)
  from m(1) have "c'' = ?c[1 := Some P, 2 := Some L, 3 := Some R, 4 := Some K]"
  proof (rule run_re_elim)
    fix P' L' R' K'
    assume a: "token P'" "token L'" "token R'" "token K'" "?s = unpinned_ref P' L' R' K'"
      "c'' = ?c[1 := Some P', 2 := Some L', 3 := Some R', 4 := Some K']"
    have e: "?s @ [] = unpinned_ref P' L' R' K' @ []"
      using a(5) by simp
    have "P = P' \<and> L = L' \<and> R = R' \<and> K = K' \<and> ([]::string) = []"
      by (rule reference_unique [OF assms a(1-4) _ _ e]) simp_all
    with a(6) show ?thesis by simp
  next
    fix P' L' R' K' V
    assume a: "token P'" "token L'" "token R'" "token K'" "token V"
      "?s = pinned_ref P' L' R' K' V"
    have e: "?s @ [] = unpinned_ref P' L' R' K' @ (''/versions/'' @ V)"
      using a(6) by (simp add: pinned_ref_def)
    have "P = P' \<and> L = L' \<and> R = R' \<and> K = K' \<and> [] = ''/versions/'' @ V"
      by (rule reference_unique [OF assms a(1-4) _ _ e]) simp_all
    then show ?thesis by simp
  qed
  with m(2) f show ?thesis
    by (simp only: captures_unpinned)
qed

lemma firstMatch_pinned:
  assumes "token P" "token L" "token R" "token K" "token V"
  shows "firstMatch re 5 (pinned_ref P L R K V)
           = Some [Some (pinned_ref P L R K V), Some P, Some L, Some R, Some K, Some V]"
proof -
  let ?s = "pinned_ref P L R K V"
  let ?c = "replicate (Suc 5) None :: captures"
  have "reference_grammar ?s"
    using assms unfolding reference_grammar_def by blast
  then obtain c' where f: "firstMatch re 5 ?s = Some c'"
    using firstMatch_None_iff [of ?s] by auto
  then obtain c'' where m: "([], c'') \<in> set (run re ?s ?c)" "c' = c''[0 := Some ?s]"
    by (rule firstMatch_SomeD)
  from m(1) have "c'' = ?c[1 := Some P, 2 := Some L, 3 := Some R, 4 := Some K, 5 := Some V]"
  proof (rule run_re_elim)
    fix P' L' R' K'
    assume a: "token P'" "token L'" "token R'" "token K'" "?s = unpinned_ref P' L' R' K'"
    have e: "unpinned_ref P L R K @ (''/versions/'' @ V) = unpinned_ref P' L' R' K' @ []"
      using a(5) by (simp add: pinned_ref_def)
    have "P = P' \<and> L = L' \<and> R = R' \<and> K = K' \<and> ''/versions/'' @ V = []"
      by (rule reference_unique [OF assms(1-4) a(1-4) _ _ e]) simp_all
    then show ?thesis by simp
  next
    fix P' L' R' K' V'
    assume a: "token P'" "token L'" "token R'" "token K'" "token V'"
      "?s = pinned_ref P' L' R' K' V'"
      "c'' = ?c[1 := Some P', 2 := Some L', 3 := Some R', 4 := Some K', 5 := Some V']"
    have e: "unpinned_ref P L R K @ (''/versions/'' @ V)
               = unpinned_ref P' L' R' K' @ (''/versions/'' @ V')"
      using a(6) by (simp add: pinned_ref_def)
    have "P = P' \<and> L = L' \<and> R = R' \<and> K = K' \<and> ''/versions/'' @ V = ''/versions/'' @ V'"
      by (rule reference_unique [OF assms(1-4) a(1-4) _ _ e]) simp_all
    with a(7) show ?thesis by simp
  qed
  with m(2) f show ?thesis
    by (simp only: captures_pinned)
qed

text \<open>
  C7, as amended. For every string outside the grammar
  \<^verbatim>\<open>gcpkms://projects/<P>/locations/<L>/keyRings/<R>/cryptoKeys/<K>[/versions/<V>]\<close>,
  \<^verbatim>\<open>ValidReference\<close> fails with \<^verbatim>\<open>ErrKMSReference\<close>, whose message carries the
  expected grammar, and \<^verbatim>\<open>parseReference\<close> fails with the error
  \<^verbatim>\<open>invalid gcpkms format\<close> that quotes the string, all five results empty. For every
  string of the grammar both succeed and \<^verbatim>\<open>parseReference\<close> returns exactly the
  segments, the version empty when there is none.
\<close>

theorem reference_parsing:
  "(\<not> reference_grammar s \<longrightarrow>
      ValidReference s = Some ErrKMSReference \<and>
      parseReference s
        = (('''', '''', '''', '''', ''''), Some (Errorf ''invalid gcpkms format %q'' s)))
   \<and> (token P \<and> token L \<and> token R \<and> token K \<longrightarrow>
      ValidReference (unpinned_ref P L R K) = None \<and>
      parseReference (unpinned_ref P L R K) = ((P, L, R, K, ''''), None))
   \<and> (token P \<and> token L \<and> token R \<and> token K \<and> token V \<longrightarrow>
      ValidReference (pinned_ref P L R K V) = None \<and>
      parseReference (pinned_ref P L R K V) = ((P, L, R, K, V), None))"
proof (intro conjI impI)
  assume "\<not> reference_grammar s"
  then have n: "firstMatch re 5 s = None"
    by (simp add: firstMatch_None_iff)
  show "ValidReference s = Some ErrKMSReference"
    by (simp add: ValidReference_def MatchString_def n)
  show "parseReference s
          = (('''', '''', '''', '''', ''''), Some (Errorf ''invalid gcpkms format %q'' s))"
    by (simp add: parseReference_def FindStringSubmatch_def n)
next
  assume "token P \<and> token L \<and> token R \<and> token K"
  then have m: "firstMatch re 5 (unpinned_ref P L R K)
           = Some [Some (unpinned_ref P L R K), Some P, Some L, Some R, Some K, None]"
    by (simp add: firstMatch_unpinned)
  show "ValidReference (unpinned_ref P L R K) = None"
    by (simp add: ValidReference_def MatchString_def m)
  show "parseReference (unpinned_ref P L R K) = ((P, L, R, K, ''''), None)"
    by (simp add: parseReference_def FindStringSubmatch_def m)
next
  assume "token P \<and> token L \<and> token R \<and> token K \<and> token V"
  then have m: "firstMatch re 5 (pinned_ref P L R K V)
           = Some [Some (pinned_ref P L R K V), Some P, Some L, Some R, Some K, Some V]"
    by (simp add: firstMatch_pinned)
  show "ValidReference (pinned_ref P L R K V) = None"
    by (simp add: ValidReference_def MatchString_def m)
  show "parseReference (pinned_ref P L R K V) = ((P, L, R, K, V), None)"
    by (simp add: parseReference_def FindStringSubmatch_def m)
qed

theorem reference_parsing_witness:
  "ValidReference ''gcpkms://projects/p'' = Some ErrKMSReference
   \<and> parseReference ''gcpkms://projects/p/locations/l/keyRings/r/cryptoKeys/k''
       = ((''p'', ''l'', ''r'', ''k'', ''''), None)
   \<and> parseReference ''gcpkms://projects/p/locations/l/keyRings/r/cryptoKeys/k/versions/7''
       = ((''p'', ''l'', ''r'', ''k'', ''7''), None)"
proof -
  have "firstMatch re 5 ''gcpkms://projects/p'' = None"
    by code_simp
  then have h: "\<not> reference_grammar ''gcpkms://projects/p''"
    by (simp add: firstMatch_None_iff)
  have t: "token ''p''" "token ''l''" "token ''r''" "token ''k''" "token ''7''"
    by (simp_all add: token_def)
  show ?thesis
    using reference_parsing [of "''gcpkms://projects/p''" "''p''" "''l''" "''r''" "''k''" "''7''"]
      h t
    by (simp add: unpinned_ref_def pinned_ref_def)
qed

text \<open>
  The claim of C7 as stated fails for \<^verbatim>\<open>parseReference\<close>: on a string outside the
  grammar its error is made of the format \<^verbatim>\<open>invalid gcpkms format %q\<close> and the
  string, and is not the error that carries the expected grammar.
\<close>

theorem reference_parsing_counterexample:
  "\<not> MatchString re 5 ''gcpkms://projects/p''
   \<and> snd (parseReference ''gcpkms://projects/p'')
       = Some (Errorf ''invalid gcpkms format %q'' ''gcpkms://projects/p'')
   \<and> snd (parseReference ''gcpkms://projects/p'') \<noteq> Some ErrKMSReference"
  by code_simp

subsection \<open>What the operations change\<close>

lemma changes_refl: "changes P g g"
  unfolding changes_def by (intro exI [of _ "kvCache g"] exI [of _ "kmsClient g"] exI [of _ "[]"]) simp

lemma changes_trans: "changes P g g' \<Longrightarrow> changes P g' g'' \<Longrightarrow> changes P g g''"
  unfolding changes_def
proof (elim exE conjE)
  fix c s new c' s' new'
  assume a: "g' = g\<lparr>kvCache := c, kmsClient := s, trace := trace g @ new\<rparr>" "\<forall>e\<in>set new. P e"
    "g'' = g'\<lparr>kvCache := c', kmsClient := s', trace := trace g' @ new'\<rparr>" "\<forall>e\<in>set new'. P e"
  have "g'' = g\<lparr>kvCache := c', kmsClient := s', trace := trace g @ (new @ new')\<rparr>"
    unfolding a(3) a(1) by simp
  moreover have "\<forall>e\<in>set (new @ new'). P e" using a(2,4) by auto
  ultimately show "\<exists>c s new. g'' = g\<lparr>kvCache := c, kmsClient := s, trace := trace g @ new\<rparr> \<and> (\<forall>e\<in>set new. P e)"
    by blast
qed

lemma changes_mono: "changes P g g' \<Longrightarrow> (\<And>e. P e \<Longrightarrow> Q e) \<Longrightarrow> changes Q g g'"
  unfolding changes_def by blast

lemma changes_invoke: "P ev \<Longrightarrow> changes P g (snd (invoke f ev g))"
  unfolding changes_def invoke_def
  by (intro exI [of _ "kvCache g"] exI [of _ "snd (f (kmsClient g))"] exI [of _ "[ev]"])
     (simp split: prod.splits)

lemma changes_cache: "changes P g (g\<lparr>kvCache := c\<rparr>)"
  unfolding changes_def by (intro exI [of _ c] exI [of _ "kmsClient g"] exI [of _ "[]"]) simp

lemma changes_trace: "P ev \<Longrightarrow> changes P g (g\<lparr>trace := trace g @ [ev]\<rparr>)"
  unfolding changes_def by (intro exI [of _ "kvCache g"] exI [of _ "kmsClient g"] exI [of _ "[ev]"]) simp

lemma changes_frame:
  assumes "changes P g g'"
  shows "version g' = version g" "projectID g' = projectID g" "locationID g' = locationID g"
    "keyRing g' = keyRing g" "keyName g' = keyName g"
  using assms unfolding changes_def by auto

lemma invoke_pair: "invoke f ev g = (fst (f (kmsClient g)), snd (invoke f ev g))"
  by (simp add: invoke_def split: prod.splits)

lemma fetchPublicKey_changes:
  "changes (resolution_call ctx) g (snd (fetchPublicKey K ctx name g))"
proof -
  have "snd (fetchPublicKey K ctx name g)
          = snd (invoke (GetPublicKey K ctx name) (Call_GetPublicKey ctx name) g)"
    by (simp add: fetchPublicKey_def split: prod.splits sum.splits)
  then show ?thesis by (simp add: changes_invoke)
qed

lemma selectVersion_changes:
  "changes (resolution_call ctx) g (snd (selectVersion K ctx parent g))"
proof (cases "version g = ''''")
  case True
  let ?req = "\<lparr>list_Parent = parent, list_Filter = ''state=ENABLED'', list_OrderBy = ''name desc''\<rparr>"
  have "snd (selectVersion K ctx parent g)
          = snd (invoke (ListCryptoKeyVersions K ctx ?req) (Call_ListCryptoKeyVersions ctx ?req) g)"
    using True by (simp add: selectVersion_def Let_def split: prod.splits sum.splits)
  then show ?thesis by (simp add: changes_invoke)
next
  case False
  let ?name = "parent @ ''/cryptoKeyVersions/'' @ version g"
  have "snd (selectVersion K ctx parent g)
          = snd (invoke (GetCryptoKeyVersion K ctx ?name) (Call_GetCryptoKeyVersion ctx ?name) g)"
    using False by (simp add: selectVersion_def Let_def split: prod.splits sum.splits)
  then show ?thesis by (simp add: changes_invoke)
qed

lemma invoke_changesD:
  "invoke f ev g = (r, g') \<Longrightarrow> P ev \<Longrightarrow> changes P g g'"
  using changes_invoke [of P ev g f] by simp

lemma fetchPublicKey_changesD:
  "fetchPublicKey K ctx name g = (r, g') \<Longrightarrow> changes (resolution_call ctx) g g'"
  using fetchPublicKey_changes [of ctx g K name] by simp

lemma selectVersion_changesD:
  "selectVersion K ctx parent g = (r, g') \<Longrightarrow> changes (resolution_call ctx) g g'"
  using selectVersion_changes [of ctx g K parent] by simp

lemma invoke_kvCache: "invoke f ev g = (r, g') \<Longrightarrow> kvCache g' = kvCache g"
  by (auto simp: invoke_def split: prod.splits)

lemma fetchPublicKey_kvCache: "fetchPublicKey K ctx name g = (r, g') \<Longrightarrow> kvCache g' = kvCache g"
  by (auto simp: fetchPublicKey_def dest: invoke_kvCache split: prod.splits sum.splits)

lemma selectVersion_kvCache: "selectVersion K ctx parent g = (r, g') \<Longrightarrow> kvCache g' = kvCache g"
  by (auto simp: selectVersion_def Let_def dest: invoke_kvCache
           split: prod.splits sum.splits if_splits)

text \<open>The states that \<^verbatim>\<open>keyVersionName\<close> can end in.\<close>

lemma keyVersionName_cases:
  assumes "keyVersionName K ctx g = (r, g')"
  obtains k g1 v g2 where
    "invoke (GetCryptoKey K ctx (parentName g)) (Call_GetCryptoKey ctx (parentName g)) g = (k, g1)"
    "selectVersion K ctx (parentName g) g1 = (v, g2)"
    "g' = g1 \<or> g' = g2 \<or> (\<exists>n p. fetchPublicKey K ctx n g2 = (p, g'))"
proof -
  obtain k g1 where i: "invoke (GetCryptoKey K ctx (parentName g))
      (Call_GetCryptoKey ctx (parentName g)) g = (k, g1)"
    by (cases "invoke (GetCryptoKey K ctx (parentName g)) (Call_GetCryptoKey ctx (parentName g)) g")
  obtain v g2 where s: "selectVersion K ctx (parentName g) g1 = (v, g2)"
    by (cases "selectVersion K ctx (parentName g) g1")
  have "g' = g1 \<or> g' = g2 \<or> (\<exists>n p. fetchPublicKey K ctx n g2 = (p, g'))"
    using assms i s
    by (auto simp: keyVersionName_def Let_def split: prod.splits sum.splits if_splits)
  with i s that show thesis by blast
qed

lemma keyVersionName_changesD:
  assumes "keyVersionName K ctx g = (r, g')"
  shows "changes (resolution_call ctx) g g'"
  using assms
proof (rule keyVersionName_cases)
  fix k g1 v g2
  let ?P = "resolution_call ctx"
  assume i: "invoke (GetCryptoKey K ctx (parentName g))
               (Call_GetCryptoKey ctx (parentName g)) g = (k, g1)"
    and s: "selectVersion K ctx (parentName g) g1 = (v, g2)"
    and d: "g' = g1 \<or> g' = g2 \<or> (\<exists>n p. fetchPublicKey K ctx n g2 = (p, g'))"
  have 1: "changes ?P g g1" by (rule invoke_changesD [OF i]) simp
  have 2: "changes ?P g g2" by (rule changes_trans [OF 1 selectVersion_changesD [OF s]])
  have 3: "\<And>n p g3. fetchPublicKey K ctx n g2 = (p, g3) \<Longrightarrow> changes ?P g g3"
    by (rule changes_trans [OF 2 fetchPublicKey_changesD])
  from d 1 2 3 show ?thesis by blast
qed

lemma keyVersionName_kvCacheD:
  assumes "keyVersionName K ctx g = (r, g')"
  shows "kvCache g' = kvCache g"
  using assms
proof (rule keyVersionName_cases)
  fix k g1 v g2
  assume i: "invoke (GetCryptoKey K ctx (parentName g))
               (Call_GetCryptoKey ctx (parentName g)) g = (k, g1)"
    and s: "selectVersion K ctx (parentName g) g1 = (v, g2)"
    and d: "g' = g1 \<or> g' = g2 \<or> (\<exists>n p. fetchPublicKey K ctx n g2 = (p, g'))"
  have 1: "kvCache g1 = kvCache g" by (rule invoke_kvCache [OF i])
  have 2: "kvCache g2 = kvCache g" using selectVersion_kvCache [OF s] 1 by simp
  have 3: "\<And>n p g3. fetchPublicKey K ctx n g2 = (p, g3) \<Longrightarrow> kvCache g3 = kvCache g"
    using fetchPublicKey_kvCache 2 by metis
  from d 1 2 3 show ?thesis by blast
qed

lemma keyVersionName_changes:
  "changes (resolution_call ctx) g (snd (keyVersionName K ctx g))"
  by (rule keyVersionName_changesD [of K ctx g "fst (keyVersionName K ctx g)"]) simp

subsection \<open>Reading through the cache\<close>

lemma getCKV_hit:
  assumes "items (kvCache g) CacheKey = Some it" "\<not> expired t it" "skipTTLExtension (kvCache g)"
  shows "getCKV K t g = (Ok (item_data it), g)"
  using assms by (simp add: getCKV_def kvCache_Get_def getItem_def)

lemma getCKV_miss:
  assumes "items (kvCache g) CacheKey = None
           \<or> (\<exists>it. items (kvCache g) CacheKey = Some it \<and> expired t it)"
  shows "getCKV K t g =
     (case keyVersionName K Background g of
        (Ok d, g') \<Rightarrow>
          (Ok d, g'\<lparr>kvCache := SetWithTTL t CacheKey d
                      (if version g \<noteq> '''' then Second * 0 else Second * 300) (kvCache g')\<rparr>)
      | (Err e, g') \<Rightarrow> (Err e, g')
      | (Panic p, g') \<Rightarrow> (Panic p, g'))"
proof -
  have "getItem t CacheKey (kvCache g) = (None, kvCache g)"
    using assms by (auto simp: getItem_def)
  then show ?thesis
    by (simp add: getCKV_def kvCache_Get_def kvCacheLoaderFunction_def Let_def
             split: prod.splits outcome.splits)
qed

lemma getCKV_changesD:
  assumes "getCKV K t g = (r, g')"
  shows "changes (resolution_call Background) g g'"
proof -
  let ?P = "resolution_call Background"
  obtain i c where gi: "getItem t CacheKey (kvCache g) = (i, c)"
    by (cases "getItem t CacheKey (kvCache g)")
  obtain d g1 where k: "keyVersionName K Background (g\<lparr>kvCache := c\<rparr>) = (d, g1)"
    by (cases "keyVersionName K Background (g\<lparr>kvCache := c\<rparr>)")
  have 1: "changes ?P g (g\<lparr>kvCache := c\<rparr>)" by (rule changes_cache)
  have 2: "changes ?P g g1" by (rule changes_trans [OF 1 keyVersionName_changesD [OF k]])
  have 3: "\<And>c'. changes ?P g (g1\<lparr>kvCache := c'\<rparr>)" by (rule changes_trans [OF 2 changes_cache])
  have "g' = g\<lparr>kvCache := c\<rparr> \<or> g' = g1 \<or> (\<exists>c'. g' = g1\<lparr>kvCache := c'\<rparr>)"
    using assms gi k
    by (auto simp: getCKV_def kvCache_Get_def kvCacheLoaderFunction_def Let_def
             split: prod.splits outcome.splits option.splits)
  with 1 2 3 show ?thesis by blast
qed

lemma getCKV_changes:
  "changes (resolution_call Background) g (snd (getCKV K t g))"
  by (rule getCKV_changesD [of K t g "fst (getCKV K t g)"]) simp

subsection \<open>What a resolution returns\<close>

lemma buildVersion_Ok:
  assumes "buildVersion kv pubKey = Ok crv"
  shows "ckv_CryptoKeyVersion crv = kv"
    and "sv_PublicKey (ckv_SignerVerifier crv) = pubKey"
    and "(kv_Algorithm kv, ckv_HashFunc crv) \<in> set (map snd documented)"
    and "kv_Algorithm kv \<noteq> EC_SIGN_P256_SHA256"
  using assms
  by (cases "kv_Algorithm kv"; cases pubKey;
      simp add: buildVersion_def privateKeys_def loadSignerVerifier_def ecdsaCase_def
        rsaCase_def documented_def LoadECDSASignerVerifier_def LoadRSAPKCS1v15SignerVerifier_def
        LoadRSAPSSSignerVerifier_def; fastforce)+

lemma buildVersion_P256:
  assumes "kv_Algorithm kv = EC_SIGN_P256_SHA256"
  shows "buildVersion kv pubKey
           = Err (Wrap (New ''invalid ECDSA private key specified'')
                    ''initializing internal verifier'')"
  using assms
  by (simp add: buildVersion_def privateKeys_def loadSignerVerifier_def
        LoadECDSASignerVerifier_def)


text \<open>
  A resolution that succeeds returns the result of \<^verbatim>\<open>buildVersion\<close> on a version
  that the service returned and on the decoded public key that the service returned for
  the name of that version.
\<close>

lemma keyVersionName_Ok:
  assumes "keyVersionName K ctx g = (Ok crv, g')"
  obtains kv pubKey s pem s' where "buildVersion kv pubKey = Ok crv"
    and "GetPublicKey K ctx (kv_Name kv) s = (Inr pem, s')"
    and "UnmarshalPEMToPublicKey K pem = Inr pubKey"
proof -
  from assms obtain kv pubKey g2 g3 where b: "buildVersion kv pubKey = Ok crv"
    and f: "fetchPublicKey K ctx (kv_Name kv) g2 = (Inr pubKey, g3)"
    by (auto simp: keyVersionName_def Let_def split: prod.splits sum.splits if_splits)
  from f obtain pem s' where "GetPublicKey K ctx (kv_Name kv) (kmsClient g2) = (Inr pem, s')"
    and "UnmarshalPEMToPublicKey K pem = Inr pubKey"
    by (auto simp: fetchPublicKey_def invoke_def split: prod.splits sum.splits)
  with b that show thesis by blast
qed


lemma resolved_public_key:
  assumes "keyVersionName K ctx g = (Ok crv, g')"
  shows "\<exists>s pem s'. GetPublicKey K ctx (kv_Name (ckv_CryptoKeyVersion crv)) s = (Inr pem, s')
           \<and> UnmarshalPEMToPublicKey K pem = Inr (sv_PublicKey (ckv_SignerVerifier crv))
           \<and> kv_Algorithm (ckv_CryptoKeyVersion crv) \<noteq> EC_SIGN_P256_SHA256"
  using assms
proof (rule keyVersionName_Ok)
  fix kv pubKey s pem s'
  assume "buildVersion kv pubKey = Ok crv" "GetPublicKey K ctx (kv_Name kv) s = (Inr pem, s')"
    "UnmarshalPEMToPublicKey K pem = Inr pubKey"
  then show ?thesis
    using buildVersion_Ok(1,2,4) [of kv pubKey crv] by blast
qed

text \<open>
  C1. The resolver is meant to return, for every supported algorithm, a verifier over the
  public key fetched for the selected version, and it does for nine of them
  (\<open>resolved_public_key\<close>). For ECDSA P-256 the first switch of
  \<^verbatim>\<open>keyVersionName\<close> leaves \<^verbatim>\<open>ecPriv\<close> nil, and the resolution of a key whose
  enabled version is an ECDSA P-256 key with a well-formed ECDSA public key returns an
  error instead of a resolved version.
\<close>

theorem keyVersionName_p256_fails:
  "fst (keyVersionName (mockEnv service_p256) Background (mockClient [] service_p256))
     = Err (Wrap (New ''invalid ECDSA private key specified'') ''initializing internal verifier'')
   \<and> fst (GetPublicKey (mockEnv service_p256) Background
            ''projects/p/locations/l/keyRings/r/cryptoKeys/k/cryptoKeyVersions/1'' service_p256) = Inr ''E1''
   \<and> UnmarshalPEMToPublicKey (mockEnv service_p256) ''E1'' = Inr (ECDSA_PublicKey 1)"
  by code_simp

subsection \<open>The algorithm tables\<close>




subsection \<open>\<^verbatim>\<open>createKey\<close>\<close>

lemma createKeyRing_cases:
  assumes "createKeyRing K ctx g = (e, g1)"
  obtains k g0 where
    "invoke (GetKeyRing K ctx (keyRingName g)) (Call_GetKeyRing ctx (keyRingName g)) g = (k, g0)"
    "(e = None \<and> g1 = g0)
     \<or> (\<exists>req c. invoke (CreateKeyRing K ctx req) (Call_CreateKeyRing ctx req) g0 = (c, g1))"
proof -
  obtain k g0 where i: "invoke (GetKeyRing K ctx (keyRingName g))
      (Call_GetKeyRing ctx (keyRingName g)) g = (k, g0)"
    by (cases "invoke (GetKeyRing K ctx (keyRingName g)) (Call_GetKeyRing ctx (keyRingName g)) g")
  have "(e = None \<and> g1 = g0)
     \<or> (\<exists>req c. invoke (CreateKeyRing K ctx req) (Call_CreateKeyRing ctx req) g0 = (c, g1))"
    using assms i
    by (auto simp: createKeyRing_def Let_def split: prod.splits sum.splits)
  with i that show thesis by blast
qed

lemma createKeyRing_trace:
  assumes "createKeyRing K ctx g = (e, g1)"
  shows "\<exists>rest. trace g1 = trace g @ Call_GetKeyRing ctx (keyRingName g) # rest
           \<and> (\<forall>ev \<in> set rest. event_ctx ev = Some ctx \<and> \<not> is_CreateCryptoKey ev)"
  using assms
proof (rule createKeyRing_cases)
  fix k g0
  assume i: "invoke (GetKeyRing K ctx (keyRingName g))
               (Call_GetKeyRing ctx (keyRingName g)) g = (k, g0)"
    and d: "(e = None \<and> g1 = g0)
     \<or> (\<exists>req c. invoke (CreateKeyRing K ctx req) (Call_CreateKeyRing ctx req) g0 = (c, g1))"
  have t0: "trace g0 = trace g @ [Call_GetKeyRing ctx (keyRingName g)]"
    using i by (auto simp: invoke_def split: prod.splits)
  from d show ?thesis
  proof
    assume "e = None \<and> g1 = g0"
    with t0 show ?thesis by simp
  next
    assume "\<exists>req c. invoke (CreateKeyRing K ctx req) (Call_CreateKeyRing ctx req) g0 = (c, g1)"
    then obtain req c where
      "invoke (CreateKeyRing K ctx req) (Call_CreateKeyRing ctx req) g0 = (c, g1)" by blast
    then have "trace g1 = trace g0 @ [Call_CreateKeyRing ctx req]"
      by (auto simp: invoke_def split: prod.splits)
    with t0 show ?thesis by (simp add: is_CreateCryptoKey_def)
  qed
qed

lemma createKeyRing_changesD:
  assumes "createKeyRing K ctx g = (e, g1)"
  shows "changes (\<lambda>ev. event_ctx ev = Some ctx) g g1"
  using assms
proof (rule createKeyRing_cases)
  fix k g0
  let ?P = "\<lambda>ev. event_ctx ev = Some ctx"
  assume i: "invoke (GetKeyRing K ctx (keyRingName g))
               (Call_GetKeyRing ctx (keyRingName g)) g = (k, g0)"
    and d: "(e = None \<and> g1 = g0)
     \<or> (\<exists>req c. invoke (CreateKeyRing K ctx req) (Call_CreateKeyRing ctx req) g0 = (c, g1))"
  have 1: "changes ?P g g0" by (rule invoke_changesD [OF i]) simp
  have 2: "changes ?P g g'"
    if a: "invoke (CreateKeyRing K ctx req) (Call_CreateKeyRing ctx req) g0 = (c, g')"
    for req c g'
    by (rule changes_trans [OF 1 invoke_changesD [OF a]]) simp
  from d 1 2 show ?thesis by blast
qed

lemma public_pair:
  "public K t ctx g = (fst (public K t ctx g), snd (getCKV K t g))"
  by (simp add: public_def PublicKey_of_def split: prod.splits outcome.splits)

lemma public_changesD:
  assumes "public K t ctx g = (r, g')"
  shows "changes (resolution_call Background) g g'"
  using assms getCKV_changes [of g K t] public_pair [of K t ctx g] by simp

text \<open>The ways through \<^verbatim>\<open>createKey\<close>.\<close>

lemma createKey_cases:
  assumes "createKey K t ctx n g = (r, g')"
  obtains e g1 k g2 where
    "createKeyRing K ctx g = (e, g1)"
    "invoke (GetCryptoKey K ctx (parentName g)) (Call_GetCryptoKey ctx (parentName g)) g1 = (k, g2)"
    "(e \<noteq> None \<and> g' = g1)
     \<or> (e = None \<and> (\<exists>key. k = Inr key) \<and> public K t ctx g2 = (r, g'))
     \<or> (e = None \<and> (\<exists>err. k = Inl err) \<and> algorithmMap n = None
          \<and> r = Err (New ''unknown algorithm requested'') \<and> g' = g2)
     \<or> (e = None \<and> (\<exists>err. k = Inl err) \<and>
          (\<exists>alg req c g3. algorithmMap n = Some alg
             \<and> invoke (CreateCryptoKey K ctx req) (Call_CreateCryptoKey ctx req) g2 = (c, g3)
             \<and> (g' = g3 \<or> public K t ctx g3 = (r, g'))))"
proof -
  obtain e g1 where c: "createKeyRing K ctx g = (e, g1)"
    by (cases "createKeyRing K ctx g")
  obtain k g2 where i: "invoke (GetCryptoKey K ctx (parentName g))
      (Call_GetCryptoKey ctx (parentName g)) g1 = (k, g2)"
    by (cases "invoke (GetCryptoKey K ctx (parentName g)) (Call_GetCryptoKey ctx (parentName g)) g1")
  have "(e \<noteq> None \<and> g' = g1)
     \<or> (e = None \<and> (\<exists>key. k = Inr key) \<and> public K t ctx g2 = (r, g'))
     \<or> (e = None \<and> (\<exists>err. k = Inl err) \<and> algorithmMap n = None
          \<and> r = Err (New ''unknown algorithm requested'') \<and> g' = g2)
     \<or> (e = None \<and> (\<exists>err. k = Inl err) \<and>
          (\<exists>alg req c g3. algorithmMap n = Some alg
             \<and> invoke (CreateCryptoKey K ctx req) (Call_CreateCryptoKey ctx req) g2 = (c, g3)
             \<and> (g' = g3 \<or> public K t ctx g3 = (r, g'))))"
    using assms c i
    by (auto simp: createKey_def Let_def split: prod.splits sum.splits option.splits)
  with c i that show thesis by blast
qed

lemma changes_traceE:
  assumes "changes P g g'"
  obtains new where "trace g' = trace g @ new" "\<forall>e \<in> set new. P e"
  using assms unfolding changes_def by auto

lemma resolution_call_not_create: "resolution_call c e \<Longrightarrow> \<not> is_CreateCryptoKey e"
  by (cases e) (simp_all add: is_CreateCryptoKey_def)

lemma resolution_call_ctx: "resolution_call c e \<Longrightarrow> event_ctx e = Some c"
  by (cases e) simp_all

text \<open>
  With a name outside the table \<^verbatim>\<open>createKey\<close> fails with the error of the table once
  the key ring is there and the key is not, having looked both up.
\<close>

lemma createKey_unknown_algorithm:
  assumes "algorithmMap n = None"
    and "fst (createKeyRing K ctx g) = None"
    and "fst (GetCryptoKey K ctx (parentName g) (kmsClient (snd (createKeyRing K ctx g)))) = Inl err"
  shows "fst (createKey K t ctx n g) = Err (New ''unknown algorithm requested'')"
    and "trace (snd (createKey K t ctx n g))
           = trace (snd (createKeyRing K ctx g)) @ [Call_GetCryptoKey ctx (parentName g)]"
proof -
  obtain g1 where c: "createKeyRing K ctx g = (None, g1)"
    using assms(2) by (cases "createKeyRing K ctx g") auto
  obtain s' where k: "GetCryptoKey K ctx (parentName g) (kmsClient g1) = (Inl err, s')"
    using assms(3) c by (cases "GetCryptoKey K ctx (parentName g) (kmsClient g1)") auto
  have "createKey K t ctx n g
          = (Err (New ''unknown algorithm requested''),
             g1\<lparr>kmsClient := s', trace := trace g1 @ [Call_GetCryptoKey ctx (parentName g)]\<rparr>)"
    using assms(1) c k by (simp add: createKey_def Let_def invoke_def)
  then show "fst (createKey K t ctx n g) = Err (New ''unknown algorithm requested'')"
    and "trace (snd (createKey K t ctx n g))
           = trace (snd (createKeyRing K ctx g)) @ [Call_GetCryptoKey ctx (parentName g)]"
    using c by simp_all
qed

text \<open>With a name outside the table no request to create the key is ever sent.\<close>

lemma createKey_unknown_trace:
  assumes "algorithmMap n = None"
  shows "\<exists>rest. trace (snd (createKey K t ctx n g))
                  = trace g @ Call_GetKeyRing ctx (keyRingName g) # rest
           \<and> (\<forall>e \<in> set rest. \<not> is_CreateCryptoKey e)"
proof -
  obtain r g' where ck: "createKey K t ctx n g = (r, g')"
    by (cases "createKey K t ctx n g")
  from ck show ?thesis
  proof (rule createKey_cases)
    fix e g1 k g2
    assume c: "createKeyRing K ctx g = (e, g1)"
      and i: "invoke (GetCryptoKey K ctx (parentName g))
                (Call_GetCryptoKey ctx (parentName g)) g1 = (k, g2)"
      and d: "(e \<noteq> None \<and> g' = g1)
     \<or> (e = None \<and> (\<exists>key. k = Inr key) \<and> public K t ctx g2 = (r, g'))
     \<or> (e = None \<and> (\<exists>err. k = Inl err) \<and> algorithmMap n = None
          \<and> r = Err (New ''unknown algorithm requested'') \<and> g' = g2)
     \<or> (e = None \<and> (\<exists>err. k = Inl err) \<and>
          (\<exists>alg req c g3. algorithmMap n = Some alg
             \<and> invoke (CreateCryptoKey K ctx req) (Call_CreateCryptoKey ctx req) g2 = (c, g3)
             \<and> (g' = g3 \<or> public K t ctx g3 = (r, g'))))"
    from createKeyRing_trace [OF c] obtain rest1 where
      t1: "trace g1 = trace g @ Call_GetKeyRing ctx (keyRingName g) # rest1"
      and n1: "\<forall>ev \<in> set rest1. \<not> is_CreateCryptoKey ev" by blast
    have t2: "trace g2 = trace g1 @ [Call_GetCryptoKey ctx (parentName g)]"
      using i by (auto simp: invoke_def split: prod.splits)
    have n2: "\<not> is_CreateCryptoKey (Call_GetCryptoKey ctx (parentName g))"
      by (simp add: is_CreateCryptoKey_def)
    from d assms consider "g' = g1" | "g' = g2" | "public K t ctx g2 = (r, g')"
      by auto
    then show ?thesis
    proof cases
      case 1
      with t1 n1 ck show ?thesis by simp
    next
      case 2
      with t1 t2 n1 n2 ck show ?thesis by simp
    next
      case 3
      from public_changesD [OF 3] obtain new where
        t3: "trace g' = trace g2 @ new" and n3: "\<forall>e \<in> set new. resolution_call Background e"
        by (rule changes_traceE)
      have "trace g' = trace g @ Call_GetKeyRing ctx (keyRingName g)
                         # (rest1 @ Call_GetCryptoKey ctx (parentName g) # new)"
        using t1 t2 t3 by simp
      moreover have "\<forall>e \<in> set (rest1 @ Call_GetCryptoKey ctx (parentName g) # new).
                       \<not> is_CreateCryptoKey e"
        using n1 n2 n3 resolution_call_not_create by auto
      ultimately show ?thesis using ck by (metis snd_conv)
    qed
  qed
qed

text \<open>
  C2, as amended. The claim that \<^verbatim>\<open>createKey\<close> rejects a name outside the table
  before any remote call is false: the key ring is looked up (and created if it is not
  there) and the key is looked up first. For every such name, the first remote call of
  \<^verbatim>\<open>createKey\<close> is the lookup of the key ring, no request to create the key is ever
  sent, and when the key ring step succeeds and the lookup of the key fails,
  \<^verbatim>\<open>createKey\<close> fails with the unknown-algorithm error right after that lookup.
\<close>

theorem createKey_unsupported_algorithm:
  assumes "algorithmMap n = None"
  shows "(\<exists>rest. trace (snd (createKey K t ctx n g))
                  = trace g @ Call_GetKeyRing ctx (keyRingName g) # rest
            \<and> (\<forall>e \<in> set rest. \<not> is_CreateCryptoKey e))
       \<and> (fst (createKeyRing K ctx g) = None \<longrightarrow>
          fst (GetCryptoKey K ctx (parentName g) (kmsClient (snd (createKeyRing K ctx g))))
            = Inl err \<longrightarrow>
          fst (createKey K t ctx n g) = Err (New ''unknown algorithm requested'')
          \<and> trace (snd (createKey K t ctx n g))
              = trace (snd (createKeyRing K ctx g)) @ [Call_GetCryptoKey ctx (parentName g)])"
  using createKey_unknown_trace [OF assms] createKey_unknown_algorithm [OF assms]
  by blast

theorem createKey_unsupported_algorithm_witness:
  "fst (createKey (mockEnv service_nokey) 0 (Caller 1) ''ed25519'' (mockClient [] service_nokey))
     = Err (New ''unknown algorithm requested'')
   \<and> trace (snd (createKey (mockEnv service_nokey) 0 (Caller 1) ''ed25519''
                    (mockClient [] service_nokey)))
     = [Call_GetKeyRing (Caller 1) ''projects/p/locations/l/keyRings/r'',
        Call_GetCryptoKey (Caller 1) ''projects/p/locations/l/keyRings/r/cryptoKeys/k'']"
proof -
  let ?K = "mockEnv service_nokey" and ?g = "mockClient [] service_nokey"
  have h0: "algorithmMap ''ed25519'' = None"
    by code_simp
  have h1: "fst (createKeyRing ?K (Caller 1) ?g) = None"
    by code_simp
  have h2: "fst (GetCryptoKey ?K (Caller 1) (parentName ?g)
                   (kmsClient (snd (createKeyRing ?K (Caller 1) ?g)))) = Inl (Status 5)"
    by code_simp
  have h3: "trace (snd (createKeyRing ?K (Caller 1) ?g))
              = [Call_GetKeyRing (Caller 1) ''projects/p/locations/l/keyRings/r'']"
    by code_simp
  have h4: "parentName ?g = ''projects/p/locations/l/keyRings/r/cryptoKeys/k''"
    by code_simp
  show ?thesis
    using createKey_unsupported_algorithm [OF h0, of ?K 0 "Caller 1" ?g "Status 5"] h1 h2 h3 h4
    by simp
qed

text \<open>
  The claim of C2 as stated fails here: the name is not in the table, the key exists,
  and \<^verbatim>\<open>createKey\<close> returns its public key after five remote calls.
\<close>

theorem createKey_unsupported_algorithm_counterexample:
  "algorithmMap ''no-such-algorithm'' = None
   \<and> fst (createKey (mockEnv (service1 bare_reply)) 0 (Caller 1) ''no-such-algorithm''
            (mockClient [] (service1 bare_reply))) = Ok (ECDSA_PublicKey 1)
   \<and> trace (snd (createKey (mockEnv (service1 bare_reply)) 0 (Caller 1) ''no-such-algorithm''
                    (mockClient [] (service1 bare_reply))))
     = [Call_GetKeyRing (Caller 1) ''projects/p/locations/l/keyRings/r'',
        Call_GetCryptoKey (Caller 1) ''projects/p/locations/l/keyRings/r/cryptoKeys/k'',
        Call_GetCryptoKey Background ''projects/p/locations/l/keyRings/r/cryptoKeys/k'',
        Call_ListCryptoKeyVersions Background
          \<lparr>list_Parent = ''projects/p/locations/l/keyRings/r/cryptoKeys/k'',
           list_Filter = ''state=ENABLED'', list_OrderBy = ''name desc''\<rparr>,
        Call_GetPublicKey Background
          ''projects/p/locations/l/keyRings/r/cryptoKeys/k/cryptoKeyVersions/1'']"
  by code_simp




subsection \<open>The context of the remote calls\<close>

lemma sign_changesD:
  assumes "sign K t ctx digest alg crc g = (res, g')"
  shows "changes (\<lambda>e. event_ctx e = Some ctx) (snd (getCKV K t g)) g'"
proof -
  let ?P = "\<lambda>e. event_ctx e = Some ctx"
  obtain d g1 where a: "getCKV K t g = (d, g1)"
    by (cases "getCKV K t g")
  have 2: "changes ?P g1 g2"
    if i: "invoke (AsymmetricSign K ctx req) (Call_AsymmetricSign ctx req) g1 = (x, g2)"
    for req x g2
    by (rule invoke_changesD [OF i]) simp
  have "g' = g1
        \<or> (\<exists>req x. invoke (AsymmetricSign K ctx req) (Call_AsymmetricSign ctx req) g1 = (x, g'))"
    using assms a
    by (auto simp: sign_def split: prod.splits outcome.splits sum.splits)
  with 2 changes_refl [of ?P g1] a show ?thesis by auto
qed

lemma verifySignature_changesD:
  assumes "verifySignature K sv r g = (res, r', g')"
  shows "changes (\<lambda>e. event_ctx e = None) g g'"
proof -
  have "g' = g\<lparr>trace := trace g @ [Local_VerifySignature sv]\<rparr>"
    using assms by (auto simp: verifySignature_def split: prod.splits)
  then show ?thesis by (simp add: changes_trace)
qed

lemma verify_changesD:
  assumes "verify K t r g = (res, r', g')"
  shows "changes (\<lambda>e. resolution_call Background e \<or> event_ctx e = None) g g'"
proof -
  let ?Q = "\<lambda>e. resolution_call Background e \<or> event_ctx e = None"
  obtain d g1 where a: "getCKV K t g = (d, g1)"
    by (cases "getCKV K t g")
  have 1: "changes ?Q g g1"
    by (rule changes_mono [OF getCKV_changesD [OF a]]) simp
  have 2: "changes ?Q g g2" if v: "verifySignature K sv r0 g1 = (x, r1, g2)" for sv r0 x r1 g2
    by (rule changes_trans [OF 1 changes_mono [OF verifySignature_changesD [OF v]]]) simp
  have 3: "changes ?Q g g4"
    if v: "verifySignature K sv r0 g1 = (x, r1, g2)"
      and c: "getCKV K t (g2\<lparr>kvCache := Remove CacheKey (kvCache g2)\<rparr>) = (d', g4)"
    for sv r0 x r1 g2 d' g4
  proof -
    have "changes ?Q g (g2\<lparr>kvCache := Remove CacheKey (kvCache g2)\<rparr>)"
      by (rule changes_trans [OF 2 [OF v] changes_cache])
    moreover have "changes ?Q (g2\<lparr>kvCache := Remove CacheKey (kvCache g2)\<rparr>) g4"
      by (rule changes_mono [OF getCKV_changesD [OF c]]) simp
    ultimately show ?thesis by (rule changes_trans)
  qed
  have 4: "changes ?Q g g5"
    if v: "verifySignature K sv r0 g1 = (x, r1, g2)"
      and c: "getCKV K t (g2\<lparr>kvCache := Remove CacheKey (kvCache g2)\<rparr>) = (d', g4)"
      and w: "verifySignature K sv' r1' g4 = (x', r2, g5)"
    for sv r0 x r1 g2 d' g4 sv' r1' x' r2 g5
    by (rule changes_trans [OF 3 [OF v c] changes_mono [OF verifySignature_changesD [OF w]]]) simp
  have "g' = g1
        \<or> (\<exists>sv r0 x r1 g2. verifySignature K sv r0 g1 = (x, r1, g2) \<and>
             (g' = g2
              \<or> (\<exists>d' g4. getCKV K t (g2\<lparr>kvCache := Remove CacheKey (kvCache g2)\<rparr>) = (d', g4) \<and>
                   (g' = g4 \<or> (\<exists>sv' r1' x' r2. verifySignature K sv' r1' g4 = (x', r2, g'))))))"
    using assms a
    by (auto simp: verify_def Let_def split: prod.splits outcome.splits option.splits if_splits)
       blast+
  then show ?thesis
    using 1 by (elim disjE exE conjE) (auto intro: 2 3 4)
qed

lemma createKey_changes:
  "\<exists>g2. changes (\<lambda>e. event_ctx e = Some ctx) g g2
        \<and> changes (resolution_call Background) g2 (snd (createKey K t ctx n g))"
proof -
  let ?P = "\<lambda>e. event_ctx e = Some ctx" and ?R = "resolution_call Background"
  obtain r g' where ck: "createKey K t ctx n g = (r, g')"
    by (cases "createKey K t ctx n g")
  from ck have "\<exists>g2. changes ?P g g2 \<and> changes ?R g2 g'"
  proof (rule createKey_cases)
    fix e g1 k g2
    assume c: "createKeyRing K ctx g = (e, g1)"
      and i: "invoke (GetCryptoKey K ctx (parentName g))
                (Call_GetCryptoKey ctx (parentName g)) g1 = (k, g2)"
      and d: "(e \<noteq> None \<and> g' = g1)
     \<or> (e = None \<and> (\<exists>key. k = Inr key) \<and> public K t ctx g2 = (r, g'))
     \<or> (e = None \<and> (\<exists>err. k = Inl err) \<and> algorithmMap n = None
          \<and> r = Err (New ''unknown algorithm requested'') \<and> g' = g2)
     \<or> (e = None \<and> (\<exists>err. k = Inl err) \<and>
          (\<exists>alg req c g3. algorithmMap n = Some alg
             \<and> invoke (CreateCryptoKey K ctx req) (Call_CreateCryptoKey ctx req) g2 = (c, g3)
             \<and> (g' = g3 \<or> public K t ctx g3 = (r, g'))))"
    have 1: "changes ?P g g1" by (rule createKeyRing_changesD [OF c])
    have 2: "changes ?P g g2"
      by (rule changes_trans [OF 1 invoke_changesD [OF i]]) simp
    have 3: "changes ?P g g3"
      if j: "invoke (CreateCryptoKey K ctx req) (Call_CreateCryptoKey ctx req) g2 = (x, g3)"
      for req x g3
      by (rule changes_trans [OF 2 invoke_changesD [OF j]]) simp
    from d consider "g' = g1" | "g' = g2" | "public K t ctx g2 = (r, g')"
      | req x g3 where
          "invoke (CreateCryptoKey K ctx req) (Call_CreateCryptoKey ctx req) g2 = (x, g3)"
          "g' = g3 \<or> public K t ctx g3 = (r, g')"
      by blast
    then show ?thesis
    proof cases
      case 1
      then show ?thesis using \<open>changes ?P g g1\<close> changes_refl by blast
    next
      case 2
      then show ?thesis using \<open>changes ?P g g2\<close> changes_refl by blast
    next
      case 3
      then show ?thesis using \<open>changes ?P g g2\<close> public_changesD by blast
    next
      case 4
      then show ?thesis using 3 public_changesD changes_refl by blast
    qed
  qed
  with ck show ?thesis by simp
qed

lemma changes_from_empty:
  assumes "changes P g g'" "trace g = []"
  shows "list_all P (trace g')"
  using assms unfolding changes_def by (auto simp: list_all_iff)

text \<open>
  C9, as amended. The claim that the resolution triggered by a cache refresh receives the
  caller's context is false: the cache loader always calls \<^verbatim>\<open>keyVersionName\<close> with a
  fresh background context, and \<^verbatim>\<open>verify\<close> takes no context at all. What holds:
  \<^verbatim>\<open>keyVersionName\<close> and the public-key fetch in it send their remote calls with the
  context they are given; every remote call made through the cache (by a read, by
  \<^verbatim>\<open>public\<close>, by \<^verbatim>\<open>verify\<close> and its retry) carries the background context;
  \<^verbatim>\<open>sign\<close> sends its own request, \<^verbatim>\<open>createKeyRing\<close> its lookups and creations, and
  \<^verbatim>\<open>createKey\<close> its own calls with the caller's context.
\<close>

theorem context_propagation:
  "changes (resolution_call ctx) g (snd (keyVersionName K ctx g))
   \<and> changes (resolution_call Background) g (snd (getCKV K t g))
   \<and> changes (resolution_call Background) g (snd (public K t ctx g))
   \<and> changes (\<lambda>e. resolution_call Background e \<or> event_ctx e = None) g (snd (snd (verify K t r g)))
   \<and> changes (\<lambda>e. event_ctx e = Some ctx) (snd (getCKV K t g))
        (snd (sign K t ctx digest alg crc g))
   \<and> changes (\<lambda>e. event_ctx e = Some ctx) g (snd (createKeyRing K ctx g))
   \<and> (\<exists>g2. changes (\<lambda>e. event_ctx e = Some ctx) g g2
          \<and> changes (resolution_call Background) g2 (snd (createKey K t ctx n g)))"
proof (intro conjI)
  show "changes (resolution_call ctx) g (snd (keyVersionName K ctx g))"
    by (rule keyVersionName_changes)
  show "changes (resolution_call Background) g (snd (getCKV K t g))"
    by (rule getCKV_changes)
  show "changes (resolution_call Background) g (snd (public K t ctx g))"
    by (rule public_changesD [of K t ctx g "fst (public K t ctx g)"]) simp
  show "changes (\<lambda>e. resolution_call Background e \<or> event_ctx e = None) g
          (snd (snd (verify K t r g)))"
    by (rule verify_changesD [of K t r g "fst (verify K t r g)" "fst (snd (verify K t r g))"])
       simp
  show "changes (\<lambda>e. event_ctx e = Some ctx) (snd (getCKV K t g))
          (snd (sign K t ctx digest alg crc g))"
    by (rule sign_changesD [of K t ctx digest alg crc g "fst (sign K t ctx digest alg crc g)"])
       simp
  show "changes (\<lambda>e. event_ctx e = Some ctx) g (snd (createKeyRing K ctx g))"
    by (rule createKeyRing_changesD [of K ctx g "fst (createKeyRing K ctx g)"]) simp
  show "\<exists>g2. changes (\<lambda>e. event_ctx e = Some ctx) g g2
          \<and> changes (resolution_call Background) g2 (snd (createKey K t ctx n g))"
    by (rule createKey_changes)
qed

theorem context_propagation_witness:
  "list_all (resolution_call Background)
     (trace (snd (getCKV (mockEnv (service1 bare_reply)) 0 (mockClient [] (service1 bare_reply)))))
   \<and> length (trace (snd (getCKV (mockEnv (service1 bare_reply)) 0
                            (mockClient [] (service1 bare_reply))))) = 3
   \<and> list_all (resolution_call (Caller 1))
       (trace (snd (keyVersionName (mockEnv (service1 bare_reply)) (Caller 1)
                      (mockClient [] (service1 bare_reply)))))"
proof -
  let ?K = "mockEnv (service1 bare_reply)" and ?g = "mockClient [] (service1 bare_reply)"
  have e: "trace ?g = []"
    by (simp add: mockClient_def)
  have l: "length (trace (snd (getCKV ?K 0 ?g))) = 3"
    by code_simp
  note c = context_propagation [of "Caller 1" ?g ?K 0 "ECDSA_PublicKey 1" "[]" SHA256 0 "[]"]
  from c have "changes (resolution_call Background) ?g (snd (getCKV ?K 0 ?g))"
    by blast
  then have 1: "list_all (resolution_call Background) (trace (snd (getCKV ?K 0 ?g)))"
    using e by (rule changes_from_empty)
  from c have "changes (resolution_call (Caller 1)) ?g (snd (keyVersionName ?K (Caller 1) ?g))"
    by blast
  then have 2: "list_all (resolution_call (Caller 1))
                  (trace (snd (keyVersionName ?K (Caller 1) ?g)))"
    using e by (rule changes_from_empty)
  from 1 2 l show ?thesis by blast
qed

text \<open>
  The claim of C9 as stated fails here: the caller signs with its own context on a client
  whose cache has to be filled, and the three calls of the resolution carry the
  background context.
\<close>

theorem context_propagation_counterexample:
  "map event_ctx
     (trace (snd (sign (mockEnv (service1 (reply 0x90F599E3 True))) 0 (Caller 1) [0x61] SHA256 0
                    (mockClient [] (service1 (reply 0x90F599E3 True))))))
     = [Some Background, Some Background, Some Background, Some (Caller 1)]
   \<and> hd (trace (snd (sign (mockEnv (service1 (reply 0x90F599E3 True))) 0 (Caller 1) [0x61]
                       SHA256 0 (mockClient [] (service1 (reply 0x90F599E3 True))))))
     = Call_GetCryptoKey Background ''projects/p/locations/l/keyRings/r/cryptoKeys/k''"
  by code_simp

subsection \<open>\<^verbatim>\<open>verify\<close> after a failed first attempt\<close>

lemma getCKV_after_Remove:
  "getCKV K t (g\<lparr>kvCache := Remove CacheKey (kvCache g)\<rparr>) =
     (case keyVersionName K Background (g\<lparr>kvCache := Remove CacheKey (kvCache g)\<rparr>) of
        (Ok d, g') \<Rightarrow>
          (Ok d, g'\<lparr>kvCache := SetWithTTL t CacheKey d
                      (if version g \<noteq> '''' then Second * 0 else Second * 300) (kvCache g')\<rparr>)
      | (Err e, g') \<Rightarrow> (Err e, g')
      | (Panic p, g') \<Rightarrow> (Panic p, g'))"
proof -
  have "items (kvCache (g\<lparr>kvCache := Remove CacheKey (kvCache g)\<rparr>)) CacheKey = None"
    by (simp add: Remove_def)
  then show ?thesis
    using getCKV_miss [of "g\<lparr>kvCache := Remove CacheKey (kvCache g)\<rparr>" t K] by simp
qed

text \<open>
  C3, as amended. Let the first read of the cached version succeed and the first
  verification attempt fail. If the reference is pinned, \<^verbatim>\<open>verify\<close> returns the
  failure (wrapped as failed for the fixed version) at once: the client is as the first
  read left it, with the one attempt recorded, so the cache is not invalidated, nothing is
  resolved and nothing is verified again. If the reference is unpinned, \<^verbatim>\<open>verify\<close>
  removes the cached entry and resolves once more, exactly once; when that resolution
  succeeds, it stores the new version, verifies once against the verifier of the new
  version and returns that result without a further retry. The claim that it always
  returns the second attempt's result is false when the resolution fails: then the error
  of the resolution is returned and there is no second attempt.
\<close>

theorem verify_first_attempt_failed:
  assumes "fst (getCKV K t g) = Ok crv"
    and "VerifySignature K (ckv_SignerVerifier crv) r = (Some err, r1)"
  shows
    "(let g1 = snd (getCKV K t g);
          g2 = g1\<lparr>trace := trace g1 @ [Local_VerifySignature (ckv_SignerVerifier crv)]\<rparr>;
          g3 = g2\<lparr>kvCache := Remove CacheKey (kvCache g2)\<rparr>
      in (version g \<noteq> '''' \<longrightarrow>
            verify K t r g = (Err (Wrap err ''failed to verify for fixed version''), r1, g2))
       \<and> (version g = '''' \<longrightarrow>
            verify K t r g =
              (case keyVersionName K Background g3 of
                 (Ok crv', g4) \<Rightarrow>
                   (case VerifySignature K (ckv_SignerVerifier crv') r1 of
                      (res, r2) \<Rightarrow>
                        ((case res of None \<Rightarrow> Ok () | Some err' \<Rightarrow> Err err'), r2,
                         g4\<lparr>kvCache := SetWithTTL t CacheKey crv' (Second * 300) (kvCache g4),
                            trace := trace g4 @ [Local_VerifySignature (ckv_SignerVerifier crv')]\<rparr>))
               | (Err err', g4) \<Rightarrow>
                   (Err (Wrap err' ''transient error getting info from KMS''), r1, g4)
               | (Panic p, g4) \<Rightarrow> (Panic p, r1, g4))))"
proof -
  define g1 where "g1 = snd (getCKV K t g)"
  define g2 where "g2 = g1\<lparr>trace := trace g1 @ [Local_VerifySignature (ckv_SignerVerifier crv)]\<rparr>"
  define g3 where "g3 = g2\<lparr>kvCache := Remove CacheKey (kvCache g2)\<rparr>"
  have a: "getCKV K t g = (Ok crv, g1)"
    using assms(1) unfolding g1_def by (metis prod.collapse)
  have v: "version g2 = version g"
    using changes_frame(1) [OF getCKV_changesD [OF a]] by (simp add: g2_def)
  have s: "verifySignature K (ckv_SignerVerifier crv) r g1 = (Some err, r1, g2)"
    using assms(2) by (simp add: verifySignature_def g2_def)
  have pinned: "verify K t r g = (Err (Wrap err ''failed to verify for fixed version''), r1, g2)"
    if "version g \<noteq> ''''"
    using that a s v by (simp add: verify_def)
  have unpinned: "verify K t r g =
              (case keyVersionName K Background g3 of
                 (Ok crv', g4) \<Rightarrow>
                   (case VerifySignature K (ckv_SignerVerifier crv') r1 of
                      (res, r2) \<Rightarrow>
                        ((case res of None \<Rightarrow> Ok () | Some err' \<Rightarrow> Err err'), r2,
                         g4\<lparr>kvCache := SetWithTTL t CacheKey crv' (Second * 300) (kvCache g4),
                            trace := trace g4 @ [Local_VerifySignature (ckv_SignerVerifier crv')]\<rparr>))
               | (Err err', g4) \<Rightarrow>
                   (Err (Wrap err' ''transient error getting info from KMS''), r1, g4)
               | (Panic p, g4) \<Rightarrow> (Panic p, r1, g4))"
    if u: "version g = ''''"
  proof -
    have c: "getCKV K t g3 =
       (case keyVersionName K Background g3 of
          (Ok d, g') \<Rightarrow>
            (Ok d, g'\<lparr>kvCache := SetWithTTL t CacheKey d (Second * 300) (kvCache g')\<rparr>)
        | (Err e, g') \<Rightarrow> (Err e, g')
        | (Panic p, g') \<Rightarrow> (Panic p, g'))"
      unfolding g3_def using getCKV_after_Remove [of K t g2] v u by simp
    show ?thesis
      using a s v u c unfolding verify_def g3_def [symmetric]
      by (simp add: Let_def g3_def [symmetric] verifySignature_def
               split: prod.splits outcome.splits option.splits)
  qed
  show ?thesis
    unfolding Let_def g1_def [symmetric] g2_def [symmetric] g3_def [symmetric]
    using pinned unpinned by blast
qed

theorem verify_first_attempt_failed_witness:
  "fst (verify (mockEnv (service1 bare_reply)) 1 (RSA_PublicKey 2)
          (primedClient [] (service2 bare_reply))) = Ok ()
   \<and> fst (verify (mockEnv (service1 bare_reply)) 1 (RSA_PublicKey 2)
            (primedClient ''1'' (service2 bare_reply)))
       = Err (Wrap (New ''invalid signature'') ''failed to verify for fixed version'')"
proof -
  let ?K = "mockEnv (service1 bare_reply)"
  let ?gu = "primedClient [] (service2 bare_reply)"
  let ?gp = "primedClient ''1'' (service2 bare_reply)"
  let ?crv = "\<lparr>ckv_CryptoKeyVersion = version1,
      ckv_SignerVerifier = \<lparr>sv_scheme = ECDSA, sv_PublicKey = ECDSA_PublicKey 1, sv_hash = SHA384\<rparr>,
      ckv_HashFunc = SHA384\<rparr>"
  have u1: "fst (getCKV ?K 1 ?gu) = Ok ?crv"
    by code_simp
  have p1: "fst (getCKV ?K 1 ?gp) = Ok ?crv"
    by code_simp
  have v: "VerifySignature ?K (ckv_SignerVerifier ?crv) (RSA_PublicKey 2)
             = (Some (New ''invalid signature''), RSA_PublicKey 2)"
    by code_simp
  have vu: "version ?gu = ''''"
    by code_simp
  have vp: "version ?gp \<noteq> ''''"
    by code_simp
  have e: "fst (verify ?K 1 (RSA_PublicKey 2) ?gu) = Ok ()"
    by code_simp
  have "fst (verify ?K 1 (RSA_PublicKey 2) ?gp)
          = Err (Wrap (New ''invalid signature'') ''failed to verify for fixed version'')"
    using verify_first_attempt_failed [OF p1 v] vp by (simp add: Let_def)
  moreover have "fst (verify ?K 1 (RSA_PublicKey 2) ?gu) = Ok ()"
    using verify_first_attempt_failed [OF u1 v] vu e by (simp add: Let_def)
  ultimately show ?thesis by simp
qed

text \<open>
  The claim of C3 as stated fails here: the reference is unpinned, the first attempt
  fails, the key is gone from the service when the version is resolved again, and
  \<^verbatim>\<open>verify\<close> returns the error of that resolution after a single verification
  attempt.
\<close>

theorem verify_first_attempt_failed_counterexample:
  "fst (verify (mockEnv (service1 bare_reply)) 1 (RSA_PublicKey 2)
          (primedClient [] service_nokey))
     = Err (Wrap (Status 5) ''transient error getting info from KMS'')
   \<and> filter (\<lambda>e. event_ctx e = None)
        (trace (snd (snd (verify (mockEnv (service1 bare_reply)) 1 (RSA_PublicKey 2)
                            (primedClient [] service_nokey)))))
     = [Local_VerifySignature
          \<lparr>sv_scheme = ECDSA, sv_PublicKey = ECDSA_PublicKey 1, sv_hash = SHA384\<rparr>]
   \<and> version (primedClient [] service_nokey) = ''''"
  by code_simp

subsection \<open>The time-to-live of the cached version\<close>

lemma getCKV_kvCache_Get: "getCKV K t g = kvCache_Get K t CacheKey g"
  by (simp add: getCKV_def split: prod.splits outcome.splits)

text \<open>The cache of a client that \<^verbatim>\<open>newGCPClient\<close> returned.\<close>

lemma newGCPClient_cache:
  assumes "newGCPClient K t0 ctx refStr = Ok g"
  obtains it where "items (kvCache g) CacheKey = Some it"
    and "skipTTLExtension (kvCache g)"
    and "version g \<noteq> '''' \<Longrightarrow> item_ttl it \<le> 0"
    and "version g = '''' \<Longrightarrow> item_ttl it = Second * 300 \<and> item_expireAt it = t0 + Second * 300"
proof -
  from assms obtain c p l r k v client d where get0:
    "kvCache_Get K t0 CacheKey
       \<lparr>defaultCtx = c, refString = refStr, projectID = p, locationID = l, keyRing = r,
        keyName = k, version = v, kvCache = SkipTTLExtensionOnHit True NewCache,
        kmsClient = client, trace = []\<rparr> = (Ok d, g)"
    by (auto simp: newGCPClient_def Let_def
             split: option.splits prod.splits sum.splits outcome.splits)
  define g0 where "g0 = \<lparr>defaultCtx = c, refString = refStr, projectID = p, locationID = l,
    keyRing = r, keyName = k, version = v, kvCache = SkipTTLExtensionOnHit True NewCache,
    kmsClient = client, trace = []\<rparr>"
  have g0: "kvCache g0 = SkipTTLExtensionOnHit True NewCache"
    by (simp add: g0_def)
  have get: "kvCache_Get K t0 CacheKey g0 = (Ok d, g)"
    using get0 by (simp add: g0_def)
  obtain x g1 where k: "keyVersionName K Background g0 = (x, g1)"
    by (cases "keyVersionName K Background g0")
  have c1: "kvCache g1 = kvCache g0"
    by (rule keyVersionName_kvCacheD [OF k])
  have v1: "version g1 = version g0"
    by (rule changes_frame(1) [OF keyVersionName_changesD [OF k]])
  have "items (kvCache g0) CacheKey = None"
    by (simp add: g0 SkipTTLExtensionOnHit_def NewCache_def)
  then have "getCKV K t0 g0 =
     (case keyVersionName K Background g0 of
        (Ok d, g') \<Rightarrow>
          (Ok d, g'\<lparr>kvCache := SetWithTTL t0 CacheKey d
                      (if version g0 \<noteq> '''' then Second * 0 else Second * 300) (kvCache g')\<rparr>)
      | (Err e, g') \<Rightarrow> (Err e, g')
      | (Panic p, g') \<Rightarrow> (Panic p, g'))"
    by (intro getCKV_miss) simp
  with get k have g: "g = g1\<lparr>kvCache := SetWithTTL t0 CacheKey d
                      (if version g0 \<noteq> '''' then Second * 0 else Second * 300) (kvCache g1)\<rparr>"
    by (auto simp: getCKV_kvCache_Get split: outcome.splits)
  have vg: "version g = version g0"
    using v1 by (simp add: g)
  let ?it = "touch t0 \<lparr>item_data = d,
      item_ttl = (if version g0 \<noteq> '''' then ItemNotExpire else Second * 300),
      item_expireAt = 0\<rparr>"
  have kc: "kvCache g = (SkipTTLExtensionOnHit True NewCache)
              \<lparr>items := (items (SkipTTLExtensionOnHit True NewCache))(CacheKey \<mapsto> ?it)\<rparr>"
    unfolding g using c1 g0
    by (simp add: SetWithTTL_def Let_def ItemExpireWithGlobalTTL_def Second_def
          SkipTTLExtensionOnHit_def NewCache_def)
  have 1: "items (kvCache g) CacheKey = Some ?it"
    by (simp add: kc)
  have 2: "skipTTLExtension (kvCache g)"
    by (simp add: kc SkipTTLExtensionOnHit_def)
  have 3: "item_ttl ?it \<le> 0" if "version g \<noteq> ''''"
    using that vg by (simp add: touch_def ItemNotExpire_def)
  have 4: "item_ttl ?it = Second * 300 \<and> item_expireAt ?it = t0 + Second * 300"
    if "version g = ''''"
    using that vg by (simp add: touch_def Second_def)
  from 1 2 3 4 that show thesis by blast
qed

lemma reads_constant:
  assumes "\<forall>t \<in> set ts. getCKV K t g = (Ok d, g)"
  shows "reads K ts g = (replicate (length ts) (Ok d), g)"
  using assms by (induction ts) simp_all

text \<open>
  C6. A client that \<^verbatim>\<open>newGCPClient\<close> returned at instant \<open>t0\<close> holds a cached version.
  If its reference pins a version, reads at any instants, in any number and order, all
  return that version and leave the client as it is: nothing is resolved again. If its
  reference is unpinned, the same holds for reads at instants up to five minutes after
  \<open>t0\<close>, which therefore do not move the expiry, and a read at any later instant resolves
  the version anew and stores it for five minutes.
\<close>

theorem cache_ttl_policy:
  assumes "newGCPClient K t0 ctx refStr = Ok g"
  shows "(version g \<noteq> '''' \<longrightarrow>
            (\<exists>d. \<forall>ts. reads K ts g = (replicate (length ts) (Ok d), g)))
       \<and> (version g = '''' \<longrightarrow>
            (\<exists>d. (\<forall>ts. (\<forall>t \<in> set ts. t \<le> t0 + Second * 300) \<longrightarrow>
                         reads K ts g = (replicate (length ts) (Ok d), g))
                \<and> (\<forall>t. t0 + Second * 300 < t \<longrightarrow>
                     getCKV K t g =
                       (case keyVersionName K Background g of
                          (Ok d', g') \<Rightarrow>
                            (Ok d', g'\<lparr>kvCache := SetWithTTL t CacheKey d' (Second * 300)
                                                    (kvCache g')\<rparr>)
                        | (Err e, g') \<Rightarrow> (Err e, g')
                        | (Panic p, g') \<Rightarrow> (Panic p, g')))))"
  using assms
proof (rule newGCPClient_cache)
  fix it
  assume i: "items (kvCache g) CacheKey = Some it"
    and s: "skipTTLExtension (kvCache g)"
    and p: "version g \<noteq> '''' \<Longrightarrow> item_ttl it \<le> 0"
    and u: "version g = '''' \<Longrightarrow> item_ttl it = Second * 300 \<and> item_expireAt it = t0 + Second * 300"
  have pinned: "\<exists>d. \<forall>ts. reads K ts g = (replicate (length ts) (Ok d), g)"
    if "version g \<noteq> ''''"
  proof -
    have "getCKV K t g = (Ok (item_data it), g)" for t
      using p [OF that] by (intro getCKV_hit [OF i _ s]) (simp add: expired_def)
    then have "reads K ts g = (replicate (length ts) (Ok (item_data it)), g)" for ts
      by (intro reads_constant) simp
    then show ?thesis by blast
  qed
  have unpinned: "\<exists>d. (\<forall>ts. (\<forall>t \<in> set ts. t \<le> t0 + Second * 300) \<longrightarrow>
                         reads K ts g = (replicate (length ts) (Ok d), g))
                \<and> (\<forall>t. t0 + Second * 300 < t \<longrightarrow>
                     getCKV K t g =
                       (case keyVersionName K Background g of
                          (Ok d', g') \<Rightarrow>
                            (Ok d', g'\<lparr>kvCache := SetWithTTL t CacheKey d' (Second * 300)
                                                    (kvCache g')\<rparr>)
                        | (Err e, g') \<Rightarrow> (Err e, g')
                        | (Panic p, g') \<Rightarrow> (Panic p, g')))"
    if v: "version g = ''''"
  proof -
    have before: "getCKV K t g = (Ok (item_data it), g)" if "t \<le> t0 + Second * 300" for t
      using u [OF v] that by (intro getCKV_hit [OF i _ s]) (simp add: expired_def)
    have "reads K ts g = (replicate (length ts) (Ok (item_data it)), g)"
      if "\<forall>t \<in> set ts. t \<le> t0 + Second * 300" for ts
      using that before by (intro reads_constant) simp
    moreover have "getCKV K t g =
                       (case keyVersionName K Background g of
                          (Ok d', g') \<Rightarrow>
                            (Ok d', g'\<lparr>kvCache := SetWithTTL t CacheKey d' (Second * 300)
                                                    (kvCache g')\<rparr>)
                        | (Err e, g') \<Rightarrow> (Err e, g')
                        | (Panic p, g') \<Rightarrow> (Panic p, g'))"
      if "t0 + Second * 300 < t" for t
    proof -
      have "expired t it"
        using u [OF v] that by (simp add: expired_def Second_def)
      with i have "items (kvCache g) CacheKey = None
           \<or> (\<exists>it. items (kvCache g) CacheKey = Some it \<and> expired t it)" by blast
      from getCKV_miss [OF this, of K] v show ?thesis by simp
    qed
    ultimately show ?thesis by blast
  qed
  from pinned unpinned show ?thesis by blast
qed

theorem cache_ttl_policy_witness:
  "(\<exists>g. newGCPClient (mockEnv (service1 bare_reply)) 0 None
            ''gcpkms://projects/p/locations/l/keyRings/r/cryptoKeys/k/versions/1'' = Ok g
        \<and> version g = ''1''
        \<and> reads (mockEnv (service1 bare_reply)) [5, 1000000000000000, 7] g
            = ([Ok \<lparr>ckv_CryptoKeyVersion = version1,
                    ckv_SignerVerifier = \<lparr>sv_scheme = ECDSA, sv_PublicKey = ECDSA_PublicKey 1,
                                          sv_hash = SHA384\<rparr>,
                    ckv_HashFunc = SHA384\<rparr>,
                Ok \<lparr>ckv_CryptoKeyVersion = version1,
                    ckv_SignerVerifier = \<lparr>sv_scheme = ECDSA, sv_PublicKey = ECDSA_PublicKey 1,
                                          sv_hash = SHA384\<rparr>,
                    ckv_HashFunc = SHA384\<rparr>,
                Ok \<lparr>ckv_CryptoKeyVersion = version1,
                    ckv_SignerVerifier = \<lparr>sv_scheme = ECDSA, sv_PublicKey = ECDSA_PublicKey 1,
                                          sv_hash = SHA384\<rparr>,
                    ckv_HashFunc = SHA384\<rparr>], g))
   \<and> (\<exists>g. newGCPClient (mockEnv (service1 bare_reply)) 0 None
            ''gcpkms://projects/p/locations/l/keyRings/r/cryptoKeys/k'' = Ok g
        \<and> version g = ''''
        \<and> fst (reads (mockEnv (service1 bare_reply)) [5, 300000000000] g)
            = [Ok \<lparr>ckv_CryptoKeyVersion = version1,
                   ckv_SignerVerifier = \<lparr>sv_scheme = ECDSA, sv_PublicKey = ECDSA_PublicKey 1,
                                         sv_hash = SHA384\<rparr>,
                   ckv_HashFunc = SHA384\<rparr>,
               Ok \<lparr>ckv_CryptoKeyVersion = version1,
                   ckv_SignerVerifier = \<lparr>sv_scheme = ECDSA, sv_PublicKey = ECDSA_PublicKey 1,
                                         sv_hash = SHA384\<rparr>,
                   ckv_HashFunc = SHA384\<rparr>]
        \<and> snd (reads (mockEnv (service1 bare_reply)) [5, 300000000000] g) = g
        \<and> fst (getCKV (mockEnv (service1 bare_reply)) 300000000001 g)
            = fst (keyVersionName (mockEnv (service1 bare_reply)) Background g))"
proof -
  let ?K = "mockEnv (service1 bare_reply)"
  let ?pin = "''gcpkms://projects/p/locations/l/keyRings/r/cryptoKeys/k/versions/1''"
  let ?unp = "''gcpkms://projects/p/locations/l/keyRings/r/cryptoKeys/k''"
  let ?crv = "\<lparr>ckv_CryptoKeyVersion = version1,
      ckv_SignerVerifier = \<lparr>sv_scheme = ECDSA, sv_PublicKey = ECDSA_PublicKey 1, sv_hash = SHA384\<rparr>,
      ckv_HashFunc = SHA384\<rparr>"
  have "(case newGCPClient ?K 0 None ?pin of
           Ok g \<Rightarrow> version g = ''1'' \<and> fst (getCKV ?K 5 g) = Ok ?crv
         | Err e \<Rightarrow> False | Panic p \<Rightarrow> False)"
    by code_simp
  then obtain gp where np: "newGCPClient ?K 0 None ?pin = Ok gp"
    and vp: "version gp = ''1''" and fp: "fst (getCKV ?K 5 gp) = Ok ?crv"
    by (auto split: outcome.splits)
  from cache_ttl_policy [OF np] vp obtain d where
    rd: "reads ?K ts gp = (replicate (length ts) (Ok d), gp)" for ts
    by auto
  from rd [of "[5]"] fp have "d = ?crv"
    by (auto split: prod.splits)
  with rd [of "[5, 1000000000000000, 7]"]
  have 1: "reads ?K [5, 1000000000000000, 7] gp = ([Ok ?crv, Ok ?crv, Ok ?crv], gp)"
    by (simp del: reads.simps)
  have "(case newGCPClient ?K 0 None ?unp of
           Ok g \<Rightarrow> version g = '''' \<and> fst (getCKV ?K 5 g) = Ok ?crv
         | Err e \<Rightarrow> False | Panic p \<Rightarrow> False)"
    by code_simp
  then obtain gu where nu: "newGCPClient ?K 0 None ?unp = Ok gu"
    and vu: "version gu = ''''" and fu: "fst (getCKV ?K 5 gu) = Ok ?crv"
    by (auto split: outcome.splits)
  from cache_ttl_policy [OF nu] vu obtain d' where
    ru: "(\<forall>t \<in> set ts. t \<le> 0 + Second * 300)
           \<Longrightarrow> reads ?K ts gu = (replicate (length ts) (Ok d'), gu)"
    and mu: "0 + Second * 300 < t \<Longrightarrow> getCKV ?K t gu =
         (case keyVersionName ?K Background gu of
            (Ok d', g') \<Rightarrow>
              (Ok d', g'\<lparr>kvCache := SetWithTTL t CacheKey d' (Second * 300) (kvCache g')\<rparr>)
          | (Err e, g') \<Rightarrow> (Err e, g')
          | (Panic p, g') \<Rightarrow> (Panic p, g'))" for ts t
    by blast
  have "reads ?K [5] gu = ([Ok d'], gu)"
    using ru [of "[5]"] by (simp del: reads.simps add: Second_def)
  with fu have "d' = ?crv"
    by (auto split: prod.splits)
  moreover have "reads ?K [5, 300000000000] gu = (replicate (length [5, 300000000000 :: int]) (Ok d'), gu)"
    by (rule ru) (simp add: Second_def)
  ultimately have 2: "reads ?K [5, 300000000000] gu = ([Ok ?crv, Ok ?crv], gu)"
    by (simp del: reads.simps)
  have 3: "fst (getCKV ?K 300000000001 gu) = fst (keyVersionName ?K Background gu)"
    using mu [of 300000000001]
    by (simp add: Second_def split: prod.splits outcome.splits)
  from np vp 1 nu vu 2 3 show ?thesis
    by (intro conjI exI [of _ gp] exI [of _ gu]) simp_all
qed

end
